theory Spec2Isabelle
  imports Complex_Main "HOL-Library.Char_ord" "HOL-Library.List_Lexorder" "HOL-Library.AList"
begin

section \<open>Shared vocabulary of the two tools\<close>

text \<open>
  Both scripts are thin callers of the \<open>silero_vad\<close> package, of \<open>torch\<close>, of the clock and
  of the file system. Python exceptions are values of \<open>error\<close>; a computation that may raise
  returns \<open>error + 'a\<close> with \<open>Inl\<close> for the exception. Python floats are modelled by the real
  numbers they denote (rounding is not modelled); the only non-finite float either script
  creates is \<open>float("inf")\<close>, kept apart in \<open>pyfloat\<close>.
\<close>

datatype error =
    ZeroDivisionError
  | StatisticsError
  | ValueError
  | AssertionError
  | Failed string
  | JSONDecodeError
  | FileNotFoundError
  | FileExistsError
  | NotADirectoryError
  | IsADirectoryError
  | External string

datatype pyfloat = Finite real | PosInf

text \<open>One detected speech interval, as the detector hands it back.\<close>

record segment =
  seg_start :: real
  seg_end :: real

text \<open>The keyword arguments the scripts pass to \<open>get_speech_timestamps\<close>.\<close>

datatype kwarg =
    Threshold real
  | SamplingRate int
  | ReturnSeconds bool
  | VisualizeProbs bool
  | TimeResolution int

type_synonym audio = "real list"
type_synonym model = nat

text \<open>
  The calls a script makes to its collaborators, with the arguments as passed. For
  \<open>load_silero_vad\<close> the second argument is \<open>opset_version\<close>, \<open>None\<close> when the caller leaves
  it out. A path is the list of its components.
\<close>

type_synonym path = "string list"

datatype call =
    SetNumThreads int
  | LoadSileroVad bool "int option"
  | ReadAudio string int
  | GetSpeechTimestamps audio model "kwarg list"
  | PerfCounter
  | Mkdir path
  | PathExists path
  | OpenRead path
  | OpenWrite path

text \<open>
  The collaborators themselves are not part of the repository's sources: they are
  parameters, transformers of an external world \<open>'w\<close>.
\<close>

record 'w env =
  load_silero_vad :: "bool \<Rightarrow> int option \<Rightarrow> 'w \<Rightarrow> (error + model) \<times> 'w"
  read_audio :: "string \<Rightarrow> int \<Rightarrow> 'w \<Rightarrow> (error + audio) \<times> 'w"
  get_speech_timestamps :: "audio \<Rightarrow> model \<Rightarrow> kwarg list \<Rightarrow> 'w \<Rightarrow> (error + segment list) \<times> 'w"
  perf_counter :: "'w \<Rightarrow> real \<times> 'w"

section \<open>The benchmark runner (\<open>bench_python.py\<close>)\<close>

text \<open>The namespace \<open>parse_args\<close> returns.\<close>

record args =
  audio :: "string list"
  runs :: int
  warmup :: int
  sampling_rate :: int
  threshold :: real
  onnx :: bool
  opset :: int
  return_seconds :: bool

text \<open>What the four \<open>print\<close> calls of one file show (the formatting is not modelled).\<close>

record report =
  rep_path :: string
  rep_duration :: real
  rep_runs :: int
  rep_warmup :: int
  rep_mean :: real
  rep_min :: real
  rep_max :: real
  rep_rtf :: pyfloat

record 'w bstate =
  world :: 'w
  calls :: "call list"
  stdout :: "report list"

definition do_load :: "'w env \<Rightarrow> bool \<Rightarrow> int option \<Rightarrow> 'w bstate \<Rightarrow> (error + model) \<times> 'w bstate" where
  "do_load E b v s =
     (case load_silero_vad E b v (world s) of
        (r, w) \<Rightarrow> (r, s\<lparr>world := w, calls := calls s @ [LoadSileroVad b v]\<rparr>))"

definition do_read :: "'w env \<Rightarrow> string \<Rightarrow> int \<Rightarrow> 'w bstate \<Rightarrow> (error + audio) \<times> 'w bstate" where
  "do_read E p sr s =
     (case read_audio E p sr (world s) of
        (r, w) \<Rightarrow> (r, s\<lparr>world := w, calls := calls s @ [ReadAudio p sr]\<rparr>))"

definition do_detect ::
  "'w env \<Rightarrow> audio \<Rightarrow> model \<Rightarrow> kwarg list \<Rightarrow> 'w bstate \<Rightarrow> (error + segment list) \<times> 'w bstate" where
  "do_detect E a m kw s =
     (case get_speech_timestamps E a m kw (world s) of
        (r, w) \<Rightarrow> (r, s\<lparr>world := w, calls := calls s @ [GetSpeechTimestamps a m kw]\<rparr>))"

definition do_perf :: "'w env \<Rightarrow> 'w bstate \<Rightarrow> real \<times> 'w bstate" where
  "do_perf E s =
     (case perf_counter E (world s) of
        (t, w) \<Rightarrow> (t, s\<lparr>world := w, calls := calls s @ [PerfCounter]\<rparr>))"

text \<open>\<open>range(n)\<close> runs its body \<open>n\<close> times, and not at all when \<open>n\<close> is negative.\<close>

definition range_len :: "int \<Rightarrow> nat" where
  "range_len n = nat n"

text \<open>Float division: \<open>a / b\<close> raises when \<open>b\<close> is zero.\<close>

definition truediv :: "real \<Rightarrow> real \<Rightarrow> error + real" where
  "truediv a b = (if b = 0 then Inl ZeroDivisionError else Inr (a / b))"

text \<open>
  \<open>statistics.mean\<close>: one pass that adds the values up and counts them, an exception when
  there is none, else the quotient.
\<close>

definition statistics_mean :: "real list \<Rightarrow> error + real" where
  "statistics_mean data =
     (case fold (\<lambda>x (acc, n). (acc + x, Suc n)) data (0, 0) of
        (acc, n) \<Rightarrow> if n < 1 then Inl StatisticsError else Inr (acc / real n))"

text \<open>The builtins \<open>min\<close> and \<open>max\<close> on a list: the first item, then each later one compared.\<close>

fun py_min :: "real list \<Rightarrow> error + real" where
  "py_min [] = Inl ValueError"
| "py_min (x # xs) = Inr (fold (\<lambda>item best. if item < best then item else best) xs x)"

fun py_max :: "real list \<Rightarrow> error + real" where
  "py_max [] = Inl ValueError"
| "py_max (x # xs) = Inr (fold (\<lambda>item best. if item > best then item else best) xs x)"

text \<open>Line 98: \<open>mean_time / audio_duration if audio_duration else float("inf")\<close>.\<close>

definition real_time_factor :: "real \<Rightarrow> real \<Rightarrow> error + pyfloat" where
  "real_time_factor mean_time audio_duration =
     (if audio_duration \<noteq> 0
      then (case truediv mean_time audio_duration of Inl e \<Rightarrow> Inl e | Inr q \<Rightarrow> Inr (Finite q))
      else Inr PosInf)"

text \<open>Lines 74-81: the warmup calls, their results dropped.\<close>

fun warmup_loop ::
  "'w env \<Rightarrow> nat \<Rightarrow> audio \<Rightarrow> model \<Rightarrow> kwarg list \<Rightarrow> 'w bstate \<Rightarrow> (error + unit) \<times> 'w bstate" where
  "warmup_loop E 0 a m kw s = (Inr (), s)"
| "warmup_loop E (Suc n) a m kw s =
     (case do_detect E a m kw s of
        (Inl e, s1) \<Rightarrow> (Inl e, s1)
      | (Inr _, s1) \<Rightarrow> warmup_loop E n a m kw s1)"

text \<open>Lines 83-93: the timed calls, each appending one duration to \<open>timings\<close>.\<close>

fun timed_loop ::
  "'w env \<Rightarrow> nat \<Rightarrow> audio \<Rightarrow> model \<Rightarrow> kwarg list \<Rightarrow> real list \<Rightarrow> 'w bstate
     \<Rightarrow> (error + real list) \<times> 'w bstate" where
  "timed_loop E 0 a m kw timings s = (Inr timings, s)"
| "timed_loop E (Suc n) a m kw timings s =
     (case do_perf E s of
        (start, s1) \<Rightarrow>
          (case do_detect E a m kw s1 of
             (Inl e, s2) \<Rightarrow> (Inl e, s2)
           | (Inr _, s2) \<Rightarrow>
               (case do_perf E s2 of
                  (stop, s3) \<Rightarrow> timed_loop E n a m kw (timings @ [stop - start]) s3)))"

definition detect_kwargs :: "args \<Rightarrow> kwarg list" where
  "detect_kwargs cfg =
     [Threshold (threshold cfg), SamplingRate (sampling_rate cfg),
      ReturnSeconds (return_seconds cfg)]"

text \<open>Lines 95-97.\<close>

definition aggregate :: "real list \<Rightarrow> error + real \<times> real \<times> real" where
  "aggregate timings =
     (case statistics_mean timings of
        Inl e \<Rightarrow> Inl e
      | Inr mean_time \<Rightarrow>
          (case py_min timings of
             Inl e \<Rightarrow> Inl e
           | Inr min_time \<Rightarrow>
               (case py_max timings of
                  Inl e \<Rightarrow> Inl e
                | Inr max_time \<Rightarrow> Inr (mean_time, min_time, max_time))))"

text \<open>Lines 71-108: the body of the loop over the files.\<close>

definition bench_file :: "'w env \<Rightarrow> args \<Rightarrow> model \<Rightarrow> string \<Rightarrow> 'w bstate \<Rightarrow> (error + unit) \<times> 'w bstate" where
  "bench_file E cfg m path s =
     (case do_read E path (sampling_rate cfg) s of
        (Inl e, s1) \<Rightarrow> (Inl e, s1)
      | (Inr a, s1) \<Rightarrow>
     (case truediv (real (length a)) (real_of_int (sampling_rate cfg)) of
        Inl e \<Rightarrow> (Inl e, s1)
      | Inr audio_duration \<Rightarrow>
     (case warmup_loop E (range_len (warmup cfg)) a m (detect_kwargs cfg) s1 of
        (Inl e, s2) \<Rightarrow> (Inl e, s2)
      | (Inr _, s2) \<Rightarrow>
     (case timed_loop E (range_len (runs cfg)) a m (detect_kwargs cfg) [] s2 of
        (Inl e, s3) \<Rightarrow> (Inl e, s3)
      | (Inr timings, s3) \<Rightarrow>
     (case aggregate timings of
        Inl e \<Rightarrow> (Inl e, s3)
      | Inr (mean_time, min_time, max_time) \<Rightarrow>
     (case real_time_factor mean_time audio_duration of
        Inl e \<Rightarrow> (Inl e, s3)
      | Inr rtf \<Rightarrow>
          (Inr (),
           s3\<lparr>stdout := stdout s3 @
             [\<lparr>rep_path = path, rep_duration = audio_duration, rep_runs = runs cfg,
               rep_warmup = warmup cfg, rep_mean = mean_time, rep_min = min_time,
               rep_max = max_time, rep_rtf = rtf\<rparr>]\<rparr>)))))))"

fun files_loop :: "'w env \<Rightarrow> args \<Rightarrow> model \<Rightarrow> string list \<Rightarrow> 'w bstate \<Rightarrow> (error + unit) \<times> 'w bstate" where
  "files_loop E cfg m [] s = (Inr (), s)"
| "files_loop E cfg m (path # paths) s =
     (case bench_file E cfg m path s of
        (Inl e, s1) \<Rightarrow> (Inl e, s1)
      | (Inr _, s1) \<Rightarrow> files_loop E cfg m paths s1)"

text \<open>Lines 66-108, from the parsed arguments on, started in world \<open>w\<close> with nothing yet called or printed.\<close>

definition main :: "'w env \<Rightarrow> args \<Rightarrow> 'w \<Rightarrow> (error + unit) \<times> 'w bstate" where
  "main E cfg w =
     (case do_load E (onnx cfg) (Some (opset cfg)) \<lparr>world = w, calls = [], stdout = []\<rparr> of
        (Inl e, s) \<Rightarrow> (Inl e, s)
      | (Inr m, s) \<Rightarrow> files_loop E cfg m (audio cfg) s)"



section \<open>The snapshot regression test (\<open>tests/test_snapshots.py\<close>)\<close>

subsection \<open>Python values and JSON text\<close>

text \<open>
  The values the test builds and \<open>json.load\<close> returns: \<open>None\<close>, booleans, numbers, strings,
  lists, and dicts with string keys in insertion order. Integers and floats are both \<open>PNum\<close>
  with the number they denote, which is how \<open>==\<close> compares them.
\<close>

datatype pyval =
    PNone
  | PBool bool
  | PNum real
  | PStr string
  | PList "pyval list"
  | PDict "(string \<times> pyval) list"

text \<open>
  The \<open>==\<close> of these values: numbers by value (a boolean counts as 0 or 1), lists item by item
  in order, dicts by size and then key by key whatever the order, values of different kinds
  unequal.
\<close>

fun py_eq :: "pyval \<Rightarrow> pyval \<Rightarrow> bool" where
  "py_eq PNone PNone = True"
| "py_eq (PBool a) (PBool b) = (a = b)"
| "py_eq (PBool a) (PNum y) = (of_bool a = y)"
| "py_eq (PNum x) (PBool b) = (x = of_bool b)"
| "py_eq (PNum x) (PNum y) = (x = y)"
| "py_eq (PStr s) (PStr t) = (s = t)"
| "py_eq (PList xs) (PList ys) = list_all2 py_eq xs ys"
| "py_eq (PDict kvs) (PDict kws) =
     (length kvs = length kws \<and>
      list_all (\<lambda>(k, v). case map_of kws k of None \<Rightarrow> False | Some w \<Rightarrow> py_eq v w) kvs)"
| "py_eq _ _ = False"

text \<open>A Python dict holds each key once, at every depth.\<close>

fun distinct_keys :: "pyval \<Rightarrow> bool" where
  "distinct_keys (PList xs) = list_all distinct_keys xs"
| "distinct_keys (PDict kvs) = (distinct (map fst kvs) \<and> list_all (\<lambda>(k, v). distinct_keys v) kvs)"
| "distinct_keys _ = True"

text \<open>
  A JSON document, as its syntax tree: the members of an object in the order of the text.
  Whitespace, string escapes and the digits of a number are not modelled; a number token
  stands for the number it denotes.
\<close>

datatype jtext =
    TNull
  | TTrue
  | TFalse
  | TNumber real
  | TString string
  | TArray "jtext list"
  | TObject "(string \<times> jtext) list"

text \<open>\<open>json.dump(data, f, indent=2, sort_keys=True)\<close>: the members of every dict sorted by key.\<close>

primrec json_dump :: "pyval \<Rightarrow> jtext" where
  "json_dump PNone = TNull"
| "json_dump (PBool b) = (if b then TTrue else TFalse)"
| "json_dump (PNum x) = TNumber x"
| "json_dump (PStr s) = TString s"
| "json_dump (PList xs) = TArray (map json_dump xs)"
| "json_dump (PDict kvs) = TObject (sort_key fst (map (map_prod id json_dump) kvs))"

text \<open>
  Reading a document back: an object becomes a dict filled member by member, a repeated key
  keeping its place and taking the later value.
\<close>

primrec json_decode :: "jtext \<Rightarrow> pyval" where
  "json_decode TNull = PNone"
| "json_decode TTrue = PBool True"
| "json_decode TFalse = PBool False"
| "json_decode (TNumber x) = PNum x"
| "json_decode (TString s) = PStr s"
| "json_decode (TArray ts) = PList (map json_decode ts)"
| "json_decode (TObject kts) =
     PDict (fold (\<lambda>(k, v) d. AList.update k v d) (map (map_prod id json_decode) kts) [])"

subsection \<open>The file system\<close>

text \<open>What a file holds: a JSON document, or something \<open>json.load\<close> cannot read.\<close>

datatype content = JsonText jtext | NotJson

datatype node = Dir | File content

type_synonym filesystem = "path \<Rightarrow> node option"

text \<open>\<open>json.load(f)\<close>.\<close>

fun json_load :: "content \<Rightarrow> error + pyval" where
  "json_load (JsonText t) = Inr (json_decode t)"
| "json_load NotJson = Inl JSONDecodeError"

definition parent :: "path \<Rightarrow> path" where
  "parent p = butlast p"

text \<open>
  \<open>Path.mkdir(exist_ok=True)\<close>: nothing happens when the directory is there; a file of that
  name, or a missing parent, raises.
\<close>

definition mkdir_exist_ok :: "filesystem \<Rightarrow> path \<Rightarrow> error + filesystem" where
  "mkdir_exist_ok fs p =
     (case fs p of
        Some Dir \<Rightarrow> Inr fs
      | Some (File c) \<Rightarrow> Inl FileExistsError
      | None \<Rightarrow>
          (case fs (parent p) of
             Some Dir \<Rightarrow> Inr (fs(p \<mapsto> Dir))
           | Some (File c) \<Rightarrow> Inl NotADirectoryError
           | None \<Rightarrow> Inl FileNotFoundError))"

definition path_exists :: "filesystem \<Rightarrow> path \<Rightarrow> bool" where
  "path_exists fs p = (fs p \<noteq> None)"

text \<open>\<open>open()\<close> for reading.\<close>

definition open_read :: "filesystem \<Rightarrow> path \<Rightarrow> error + content" where
  "open_read fs p =
     (case fs p of
        Some (File c) \<Rightarrow> Inr c
      | Some Dir \<Rightarrow> Inl IsADirectoryError
      | None \<Rightarrow> Inl FileNotFoundError)"

text \<open>\<open>open("w")\<close>: the file is created, or emptied, in a directory that exists.\<close>

definition open_write :: "filesystem \<Rightarrow> path \<Rightarrow> error + filesystem" where
  "open_write fs p =
     (case fs p of
        Some Dir \<Rightarrow> Inl IsADirectoryError
      | _ \<Rightarrow>
          (case fs (parent p) of
             Some Dir \<Rightarrow> Inr (fs(p \<mapsto> File NotJson))
           | Some (File c) \<Rightarrow> Inl NotADirectoryError
           | None \<Rightarrow> Inl FileNotFoundError))"

subsection \<open>The test module\<close>

record 'w tstate =
  t_world :: 'w
  t_calls :: "call list"
  files :: filesystem


definition SAMPLES :: "string list" where
  "SAMPLES = [''tests/data/test.wav'', ''tests/data/test.opus'', ''tests/data/test.mp3'']"

text \<open>
  \<open>Path(__file__).parent\<close>: the directory the module lies in, written from the repository's
  root as the paths of \<open>SAMPLES\<close> are.
\<close>

definition module_dir :: path where
  "module_dir = [''tests'']"

definition SNAPSHOT_DIR :: path where
  "SNAPSHOT_DIR = module_dir @ [''snapshots'']"

text \<open>The pieces of a string between its slashes.\<close>

fun split_slash :: "string \<Rightarrow> string list" where
  "split_slash [] = [[]]"
| "split_slash (c # cs) =
     (if c = CHR ''/'' then [] # split_slash cs
      else (case split_slash cs of [] \<Rightarrow> [[c]] | piece # pieces \<Rightarrow> (c # piece) # pieces))"

text \<open>
  \<open>Path(sample).name\<close>: the last component of the path, empty pieces and \<open>.\<close> pieces left out as
  \<open>Path\<close> leaves them out; the empty string when no component is left.
\<close>

definition path_name :: "string \<Rightarrow> string" where
  "path_name sample =
     (case filter (\<lambda>piece. piece \<noteq> [] \<and> piece \<noteq> ''.'') (split_slash sample) of
        [] \<Rightarrow> []
      | piece # pieces \<Rightarrow> last (piece # pieces))"

text \<open>\<open>str(path)\<close>, for the message.\<close>

definition path_str :: "path \<Rightarrow> string" where
  "path_str p = (case p of [] \<Rightarrow> ''.'' | c # cs \<Rightarrow> c @ concat (map (\<lambda>d. CHR ''/'' # d) cs))"


definition t_read :: "'w env \<Rightarrow> string \<Rightarrow> int \<Rightarrow> 'w tstate \<Rightarrow> (error + audio) \<times> 'w tstate" where
  "t_read E p sr s =
     (case read_audio E p sr (t_world s) of
        (r, w) \<Rightarrow> (r, s\<lparr>t_world := w, t_calls := t_calls s @ [ReadAudio p sr]\<rparr>))"

definition t_detect ::
  "'w env \<Rightarrow> audio \<Rightarrow> model \<Rightarrow> kwarg list \<Rightarrow> 'w tstate \<Rightarrow> (error + segment list) \<times> 'w tstate" where
  "t_detect E a m kw s =
     (case get_speech_timestamps E a m kw (t_world s) of
        (r, w) \<Rightarrow> (r, s\<lparr>t_world := w, t_calls := t_calls s @ [GetSpeechTimestamps a m kw]\<rparr>))"

text \<open>The dict the detector returns for one segment, and the dict lines 30-34 build.\<close>

definition segment_val :: "segment \<Rightarrow> pyval" where
  "segment_val g = PDict [(''start'', PNum (seg_start g)), (''end'', PNum (seg_end g))]"

definition snapshot_entry :: "string \<Rightarrow> int \<Rightarrow> segment list \<Rightarrow> pyval" where
  "snapshot_entry file_name sr ts =
     PDict [(''file'', PStr file_name),
            (''sampling_rate'', PNum (of_int sr)),
            (''speech_timestamps'', PList (map segment_val ts))]"

text \<open>Lines 18-36, with \<open>results\<close> as the accumulator.\<close>

fun compute_snapshot ::
  "'w env \<Rightarrow> model \<Rightarrow> string list \<Rightarrow> int \<Rightarrow> pyval list \<Rightarrow> 'w tstate
     \<Rightarrow> (error + pyval list) \<times> 'w tstate" where
  "compute_snapshot E m [] sr results s = (Inr results, s)"
| "compute_snapshot E m (sample # samples) sr results s =
     (case t_read E sample sr s of
        (Inl e, s1) \<Rightarrow> (Inl e, s1)
      | (Inr a, s1) \<Rightarrow>
          (case t_detect E a m [VisualizeProbs False, ReturnSeconds True, TimeResolution 3] s1 of
             (Inl e, s2) \<Rightarrow> (Inl e, s2)
           | (Inr ts, s2) \<Rightarrow>
               compute_snapshot E m samples sr
                 (results @ [snapshot_entry (path_name sample) sr ts]) s2))"

text \<open>Lines 39-48.\<close>

definition write_or_assert :: "path \<Rightarrow> pyval \<Rightarrow> 'w tstate \<Rightarrow> (error + unit) \<times> 'w tstate" where
  "write_or_assert snapshot_path data s =
     (let s0 = s\<lparr>t_calls := t_calls s @ [Mkdir SNAPSHOT_DIR]\<rparr> in
      case mkdir_exist_ok (files s0) SNAPSHOT_DIR of
        Inl e \<Rightarrow> (Inl e, s0)
      | Inr fs1 \<Rightarrow>
          (let s1 = s0\<lparr>files := fs1, t_calls := t_calls s0 @ [PathExists snapshot_path]\<rparr> in
           if path_exists (files s1) snapshot_path then
             (let s2 = s1\<lparr>t_calls := t_calls s1 @ [OpenRead snapshot_path]\<rparr> in
              case open_read (files s2) snapshot_path of
                Inl e \<Rightarrow> (Inl e, s2)
              | Inr f \<Rightarrow>
                  (case json_load f of
                     Inl e \<Rightarrow> (Inl e, s2)
                   | Inr expected \<Rightarrow>
                       if py_eq data expected then (Inr (), s2) else (Inl AssertionError, s2)))
           else
             (let s2 = s1\<lparr>t_calls := t_calls s1 @ [OpenWrite snapshot_path]\<rparr> in
              case open_write (files s2) snapshot_path of
                Inl e \<Rightarrow> (Inl e, s2)
              | Inr fs2 \<Rightarrow>
                  (Inl (Failed (''Snapshot created at '' @ path_str snapshot_path @
                                ''. Verify and re-run.'')),
                   s2\<lparr>files := fs2(snapshot_path \<mapsto> File (JsonText (json_dump data)))\<rparr>))))"





section \<open>Notions the statements use\<close>

text \<open>
  The calls one file is expected to cause: one read, the warmup detections, then the timed
  detections, each between two readings of the clock.
\<close>

definition file_calls :: "args \<Rightarrow> model \<Rightarrow> string \<Rightarrow> audio \<Rightarrow> call list" where
  "file_calls cfg m path a =
     ReadAudio path (sampling_rate cfg) #
     replicate (nat (warmup cfg)) (GetSpeechTimestamps a m (detect_kwargs cfg)) @
     concat (replicate (nat (runs cfg))
       [PerfCounter, GetSpeechTimestamps a m (detect_kwargs cfg), PerfCounter])"

text \<open>
  A Snapshot Record, from its typed parts: the backend's name and, for each sample, the file
  name, the sampling rate and the segments. It is the dict lines 53-56 and 62-65 build.
\<close>

definition snapshot_record :: "string \<Rightarrow> (string \<times> int \<times> segment list) list \<Rightarrow> pyval" where
  "snapshot_record name entries =
     PDict [(''model'', PStr name),
            (''snapshots'', PList (map (\<lambda>(file_name, sr, ts). snapshot_entry file_name sr ts) entries))]"

text \<open>
  What the spec asks of one file, as a function of the world alone. The world after \<open>n\<close>
  detection calls whose results are dropped, \<open>None\<close> when one of them fails:
\<close>

fun detections :: "'w env \<Rightarrow> nat \<Rightarrow> audio \<Rightarrow> model \<Rightarrow> kwarg list \<Rightarrow> 'w \<Rightarrow> 'w option" where
  "detections E 0 a m kw w = Some w"
| "detections E (Suc n) a m kw w =
     (case get_speech_timestamps E a m kw w of
        (Inl e, w1) \<Rightarrow> None
      | (Inr ts, w1) \<Rightarrow> detections E n a m kw w1)"

text \<open>
  The elapsed durations of \<open>n\<close> timed detection calls, each the reading of the clock right
  after the call minus the reading right before it, and the world they leave:
\<close>

fun timed_detections ::
  "'w env \<Rightarrow> nat \<Rightarrow> audio \<Rightarrow> model \<Rightarrow> kwarg list \<Rightarrow> 'w \<Rightarrow> (real list \<times> 'w) option" where
  "timed_detections E 0 a m kw w = Some ([], w)"
| "timed_detections E (Suc n) a m kw w =
     (case perf_counter E w of
        (before, w1) \<Rightarrow>
          (case get_speech_timestamps E a m kw w1 of
             (Inl e, w2) \<Rightarrow> None
           | (Inr ts, w2) \<Rightarrow>
               (case perf_counter E w2 of
                  (after, w3) \<Rightarrow>
                    (case timed_detections E n a m kw w3 of
                       None \<Rightarrow> None
                     | Some (elapsed, w4) \<Rightarrow> Some ((after - before) # elapsed, w4)))))"

text \<open>
  One file: read it, detect \<open>warmup\<close> times, then \<open>runs\<close> times timed (a negative count
  counts as none). The samples read, the durations recorded and the world left:
\<close>

definition file_run :: "'w env \<Rightarrow> args \<Rightarrow> model \<Rightarrow> string \<Rightarrow> 'w \<Rightarrow> (audio \<times> real list \<times> 'w) option" where
  "file_run E cfg m path w =
     (case read_audio E path (sampling_rate cfg) w of
        (Inl e, w1) \<Rightarrow> None
      | (Inr a, w1) \<Rightarrow>
          (case detections E (nat (max (warmup cfg) 0)) a m (detect_kwargs cfg) w1 of
             None \<Rightarrow> None
           | Some w2 \<Rightarrow>
               (case timed_detections E (nat (max (runs cfg) 0)) a m (detect_kwargs cfg) w2 of
                  None \<Rightarrow> None
                | Some (elapsed, w3) \<Rightarrow> Some (a, elapsed, w3))))"

text \<open>The files one after the other, each started in the world the one before left.\<close>

fun files_run ::
  "'w env \<Rightarrow> args \<Rightarrow> model \<Rightarrow> string list \<Rightarrow> 'w \<Rightarrow> ((audio \<times> real list) list \<times> 'w) option" where
  "files_run E cfg m [] w = Some ([], w)"
| "files_run E cfg m (path # paths) w =
     (case file_run E cfg m path w of
        None \<Rightarrow> None
      | Some (a, elapsed, w1) \<Rightarrow>
          (case files_run E cfg m paths w1 of
             None \<Rightarrow> None
           | Some (rest, w2) \<Rightarrow> Some ((a, elapsed) # rest, w2)))"

text \<open>The report a file is due, from the samples read and the durations recorded.\<close>

definition expected_report :: "args \<Rightarrow> string \<Rightarrow> audio \<Rightarrow> real list \<Rightarrow> report" where
  "expected_report cfg path a elapsed =
     \<lparr>rep_path = path,
      rep_duration = real (length a) / real_of_int (sampling_rate cfg),
      rep_runs = runs cfg,
      rep_warmup = warmup cfg,
      rep_mean = sum_list elapsed / real (length elapsed),
      rep_min = Min (set elapsed),
      rep_max = Max (set elapsed),
      rep_rtf = (if real (length a) / real_of_int (sampling_rate cfg) = 0 then PosInf
                 else Finite (sum_list elapsed / real (length elapsed) /
                              (real (length a) / real_of_int (sampling_rate cfg))))\<rparr>"


text \<open>The calls that pin the thread count, load a model, read a file, and detect.\<close>

fun is_detect :: "call \<Rightarrow> bool" where
  "is_detect (GetSpeechTimestamps a m kw) = True"
| "is_detect _ = False"

fun is_read :: "call \<Rightarrow> bool" where
  "is_read (ReadAudio p sr) = True"
| "is_read _ = False"


fun is_pin :: "call \<Rightarrow> bool" where
  "is_pin (SetNumThreads n) = True"
| "is_pin _ = False"

fun is_load :: "call \<Rightarrow> bool" where
  "is_load (LoadSileroVad b v) = True"
| "is_load _ = False"

text \<open>Two states of the runner that differ at most in the first call they logged.\<close>

definition same_but_first_call :: "'w bstate \<Rightarrow> 'w bstate \<Rightarrow> bool" where
  "same_but_first_call s t =
     (world s = world t \<and> stdout s = stdout t \<and> calls s \<noteq> [] \<and> calls t \<noteq> [] \<and>
      tl (calls s) = tl (calls t))"

section \<open>A small world to run the scripts in\<close>

text \<open>
  A world that is only a clock: every reading is half a second after the one before. Loading
  gives model 0 whatever is asked for, every file holds four samples but \<open>empty.wav\<close>, which
  holds none, and detection finds one segment.
\<close>

definition demo_env :: "nat env" where
  "demo_env =
     \<lparr>load_silero_vad = (\<lambda>b v w. (Inr 0, w)),
      read_audio = (\<lambda>p sr w. (Inr (if p = ''empty.wav'' then [] else [0, 0, 0, 0]), w)),
      get_speech_timestamps = (\<lambda>a m kw w. (Inr [\<lparr>seg_start = 1/2, seg_end = 3/2\<rparr>], w)),
      perf_counter = (\<lambda>w. (real w / 2, Suc w))\<rparr>"

definition demo_args :: args where
  "demo_args =
     \<lparr>audio = [''a.wav''], runs = 2, warmup = 1, sampling_rate = 2, threshold = 1/2,
      onnx = False, opset = 16, return_seconds = False\<rparr>"

text \<open>
  A world that is the list of the clock's coming readings; the rest as before.
\<close>

definition clock_env :: "real list env" where
  "clock_env =
     \<lparr>load_silero_vad = (\<lambda>b v w. (Inr 0, w)),
      read_audio = (\<lambda>p sr w. (Inr [0, 0, 0, 0], w)),
      get_speech_timestamps = (\<lambda>a m kw w. (Inr [], w)),
      perf_counter = (\<lambda>w. case w of [] \<Rightarrow> (0, []) | t # ts \<Rightarrow> (t, ts))\<rparr>"

text \<open>A file system that holds the module's directory and nothing else.\<close>

definition demo_fs :: filesystem where
  "demo_fs = Map.empty(module_dir \<mapsto> Dir)"

text \<open>A record of one sample with one segment, and states to check it in.\<close>

definition demo_record :: pyval where
  "demo_record =
     snapshot_record ''jit''
       [(''test.wav'', 16000, [\<lparr>seg_start = 1/2, seg_end = 3/2\<rparr>])]"

definition demo_state :: "nat tstate" where
  "demo_state = \<lparr>t_world = 0, t_calls = [], files = demo_fs\<rparr>"

text \<open>A state in which the snapshot directory and the snapshot of \<open>v\<close> are there.\<close>

definition stored_state :: "pyval \<Rightarrow> nat tstate" where
  "stored_state v =
     \<lparr>t_world = 0, t_calls = [],
      files = demo_fs(SNAPSHOT_DIR \<mapsto> Dir, SNAPSHOT_DIR @ [''jit.json''] \<mapsto> File (JsonText (json_dump v)))\<rparr>"

section \<open>Aggregation of the timing samples\<close>

lemma mean_fold:
  "fold (\<lambda>x (acc, n). (acc + x, Suc n)) data (t, c) = (t + sum_list data, c + length data)"
  by (induction data arbitrary: t c) (simp_all add: algebra_simps)

lemma statistics_mean_eq:
  "statistics_mean data =
     (if data = [] then Inl StatisticsError else Inr (sum_list data / real (length data)))"
  by (simp add: statistics_mean_def mean_fold)

lemma min_fold:
  "fold (\<lambda>item best. if item < best then item else best) xs (x::real) = Min (insert x (set xs))"
proof (induction xs arbitrary: x)
  case Nil
  show ?case by simp
next
  case (Cons y ys)
  have "Min (insert (min x y) (set ys)) = Min (insert x (insert y (set ys)))"
    by (cases "set ys = {}") (simp_all add: Min_insert min.assoc)
  moreover have "(if y < x then y else x) = min x y"
    by (simp add: min_def)
  ultimately show ?case
    using Cons.IH [of "min x y"] by simp
qed

lemma max_fold:
  "fold (\<lambda>item best. if item > best then item else best) xs (x::real) = Max (insert x (set xs))"
proof (induction xs arbitrary: x)
  case Nil
  show ?case by simp
next
  case (Cons y ys)
  have "Max (insert (max x y) (set ys)) = Max (insert x (insert y (set ys)))"
    by (cases "set ys = {}") (simp_all add: Max_insert max.assoc)
  moreover have "(if y > x then y else x) = max x y"
    by (simp add: max_def)
  ultimately show ?case
    using Cons.IH [of "max x y"] by simp
qed

lemma py_min_eq: "timings \<noteq> [] \<Longrightarrow> py_min timings = Inr (Min (set timings))"
  by (cases timings) (simp_all add: min_fold)

lemma py_max_eq: "timings \<noteq> [] \<Longrightarrow> py_max timings = Inr (Max (set timings))"
  by (cases timings) (simp_all add: max_fold)

lemma aggregate_nonempty:
  "timings \<noteq> [] \<Longrightarrow>
     aggregate timings =
       Inr (sum_list timings / real (length timings), Min (set timings), Max (set timings))"
  by (simp add: aggregate_def statistics_mean_eq py_min_eq py_max_eq)

lemma aggregate_empty: "aggregate [] = Inl StatisticsError"
  by (simp add: aggregate_def statistics_mean_eq)

section \<open>The calls of the benchmark runner\<close>

lemma do_detect_calls:
  "do_detect E a m kw s = (r, s') \<Longrightarrow>
     calls s' = calls s @ [GetSpeechTimestamps a m kw] \<and> stdout s' = stdout s"
  by (auto simp: do_detect_def split: prod.splits)

lemma do_perf_calls:
  "do_perf E s = (t, s') \<Longrightarrow> calls s' = calls s @ [PerfCounter] \<and> stdout s' = stdout s"
  by (auto simp: do_perf_def split: prod.splits)

lemma do_read_calls:
  "do_read E p sr s = (r, s') \<Longrightarrow> calls s' = calls s @ [ReadAudio p sr] \<and> stdout s' = stdout s"
  by (auto simp: do_read_def split: prod.splits)

lemma do_load_calls:
  "do_load E b v s = (r, s') \<Longrightarrow> calls s' = calls s @ [LoadSileroVad b v] \<and> stdout s' = stdout s"
  by (auto simp: do_load_def split: prod.splits)

lemma warmup_loop_calls:
  "warmup_loop E n a m kw s = (Inr u, s') \<Longrightarrow>
     calls s' = calls s @ replicate n (GetSpeechTimestamps a m kw) \<and> stdout s' = stdout s"
proof (induction n arbitrary: s)
  case 0
  then show ?case by simp
next
  case (Suc n)
  obtain r s1 where d: "do_detect E a m kw s = (r, s1)"
    by (cases "do_detect E a m kw s")
  with Suc.prems obtain v where r: "r = Inr v" and rest: "warmup_loop E n a m kw s1 = (Inr u, s')"
    by (cases r) auto
  from Suc.IH [OF rest] do_detect_calls [OF d] show ?case
    by (simp add: replicate_append_same)
qed

lemma timed_loop_calls:
  "timed_loop E n a m kw timings s = (Inr ts, s') \<Longrightarrow>
     calls s' = calls s @ concat (replicate n [PerfCounter, GetSpeechTimestamps a m kw, PerfCounter]) \<and>
     stdout s' = stdout s \<and> length ts = length timings + n"
proof (induction n arbitrary: s timings)
  case 0
  then show ?case by simp
next
  case (Suc n)
  obtain start s1 where p1: "do_perf E s = (start, s1)"
    by (cases "do_perf E s")
  obtain r s2 where d: "do_detect E a m kw s1 = (r, s2)"
    by (cases "do_detect E a m kw s1")
  obtain stop s3 where p2: "do_perf E s2 = (stop, s3)"
    by (cases "do_perf E s2")
  from Suc.prems p1 d p2 have rest: "timed_loop E n a m kw (timings @ [stop - start]) s3 = (Inr ts, s')"
    by (cases r) auto
  from Suc.IH [OF rest] do_perf_calls [OF p1] do_detect_calls [OF d] do_perf_calls [OF p2]
  show ?case by simp
qed

lemma bench_file_success:
  assumes "bench_file E cfg m path s = (Inr u, s')"
  obtains a s1 s2 s3 timings mean_time min_time max_time rtf where
    "do_read E path (sampling_rate cfg) s = (Inr a, s1)"
    "sampling_rate cfg \<noteq> 0"
    "warmup_loop E (range_len (warmup cfg)) a m (detect_kwargs cfg) s1 = (Inr (), s2)"
    "timed_loop E (range_len (runs cfg)) a m (detect_kwargs cfg) [] s2 = (Inr timings, s3)"
    "aggregate timings = Inr (mean_time, min_time, max_time)"
    "real_time_factor mean_time (real (length a) / real_of_int (sampling_rate cfg)) = Inr rtf"
    "s' = s3\<lparr>stdout := stdout s3 @
             [\<lparr>rep_path = path, rep_duration = real (length a) / real_of_int (sampling_rate cfg),
               rep_runs = runs cfg, rep_warmup = warmup cfg, rep_mean = mean_time,
               rep_min = min_time, rep_max = max_time, rep_rtf = rtf\<rparr>]\<rparr>"
  using assms unfolding bench_file_def truediv_def
  by (auto split: prod.splits sum.splits if_splits)

section \<open>The real-time factor\<close>

lemma real_time_factor_eq:
  "real_time_factor mean_time d = Inr (if d = 0 then PosInf else Finite (mean_time / d))"
  by (simp add: real_time_factor_def truediv_def)

text \<open>
  C1. When the benchmark of a file completes, the reported duration is the number of samples
  read divided by the sampling rate, and the reported real-time factor is the reported mean
  divided by that duration when the duration is positive and positive infinity when it is
  zero. Computing the factor raises nothing, whatever the mean and the duration.
\<close>

theorem real_time_factor_reported:
  assumes "bench_file E cfg m path s = (Inr u, s')"
  shows "(\<exists>a s1. do_read E path (sampling_rate cfg) s = (Inr a, s1) \<and>
           (let rep = last (stdout s') in
              rep_duration rep = real (length a) / real_of_int (sampling_rate cfg) \<and>
              (0 < rep_duration rep \<longrightarrow> rep_rtf rep = Finite (rep_mean rep / rep_duration rep)) \<and>
              (rep_duration rep = 0 \<longrightarrow> rep_rtf rep = PosInf))) \<and>
         (\<forall>mean_time d e. real_time_factor mean_time d \<noteq> Inl e)"
proof -
  from assms obtain a s1 s3 mean_time min_time max_time rtf where
    r: "do_read E path (sampling_rate cfg) s = (Inr a, s1)" and
    f: "real_time_factor mean_time (real (length a) / real_of_int (sampling_rate cfg)) = Inr rtf" and
    s': "s' = s3\<lparr>stdout := stdout s3 @
             [\<lparr>rep_path = path, rep_duration = real (length a) / real_of_int (sampling_rate cfg),
               rep_runs = runs cfg, rep_warmup = warmup cfg, rep_mean = mean_time,
               rep_min = min_time, rep_max = max_time, rep_rtf = rtf\<rparr>]\<rparr>"
    by (rule bench_file_success) blast
  from f have "rtf = (if real (length a) / real_of_int (sampling_rate cfg) = 0 then PosInf
                      else Finite (mean_time / (real (length a) / real_of_int (sampling_rate cfg))))"
    by (simp only: real_time_factor_eq sum.inject)
  with r s' have "\<exists>a s1. do_read E path (sampling_rate cfg) s = (Inr a, s1) \<and>
           (let rep = last (stdout s') in
              rep_duration rep = real (length a) / real_of_int (sampling_rate cfg) \<and>
              (0 < rep_duration rep \<longrightarrow> rep_rtf rep = Finite (rep_mean rep / rep_duration rep)) \<and>
              (rep_duration rep = 0 \<longrightarrow> rep_rtf rep = PosInf))"
    by (auto simp: Let_def)
  moreover have "\<forall>mean_time d e. real_time_factor mean_time d \<noteq> Inl e"
    by (simp add: real_time_factor_eq)
  ultimately show ?thesis ..
qed

lemmas demo_run_defs =
  main_def bench_file_def demo_env_def demo_args_def do_load_def do_read_def truediv_def
  range_len_def detect_kwargs_def do_detect_def do_perf_def aggregate_def
  statistics_mean_def real_time_factor_def eval_nat_numeral

lemma demo_bench_file:
  "bench_file demo_env demo_args 0 ''a.wav'' \<lparr>world = 0, calls = [], stdout = []\<rparr> =
     (Inr (),
      \<lparr>world = 4,
       calls = file_calls demo_args 0 ''a.wav'' [0, 0, 0, 0],
       stdout = [\<lparr>rep_path = ''a.wav'', rep_duration = 2, rep_runs = 2, rep_warmup = 1,
                  rep_mean = 1/2, rep_min = 1/2, rep_max = 1/2, rep_rtf = Finite (1/4)\<rparr>]\<rparr>)"
  by (simp add: demo_run_defs file_calls_def)

lemma demo_bench_empty:
  "bench_file demo_env demo_args 0 ''empty.wav'' \<lparr>world = 0, calls = [], stdout = []\<rparr> =
     (Inr (),
      \<lparr>world = 4,
       calls = file_calls demo_args 0 ''empty.wav'' [],
       stdout = [\<lparr>rep_path = ''empty.wav'', rep_duration = 0, rep_runs = 2, rep_warmup = 1,
                  rep_mean = 1/2, rep_min = 1/2, rep_max = 1/2, rep_rtf = PosInf\<rparr>]\<rparr>)"
  by (simp add: demo_run_defs file_calls_def)

text \<open>Two seconds of audio and a mean of half a second; then a file with no samples.\<close>

theorem real_time_factor_reported_witness:
  "fst (bench_file demo_env demo_args 0 ''a.wav'' \<lparr>world = 0, calls = [], stdout = []\<rparr>) = Inr () \<and>
   rep_duration (last (stdout (snd
     (bench_file demo_env demo_args 0 ''a.wav'' \<lparr>world = 0, calls = [], stdout = []\<rparr>)))) = 2 \<and>
   rep_mean (last (stdout (snd
     (bench_file demo_env demo_args 0 ''a.wav'' \<lparr>world = 0, calls = [], stdout = []\<rparr>)))) = 1/2 \<and>
   rep_rtf (last (stdout (snd
     (bench_file demo_env demo_args 0 ''a.wav'' \<lparr>world = 0, calls = [], stdout = []\<rparr>)))) =
     Finite (1/4) \<and>
   fst (bench_file demo_env demo_args 0 ''empty.wav'' \<lparr>world = 0, calls = [], stdout = []\<rparr>) = Inr () \<and>
   rep_duration (last (stdout (snd
     (bench_file demo_env demo_args 0 ''empty.wav'' \<lparr>world = 0, calls = [], stdout = []\<rparr>)))) = 0 \<and>
   rep_rtf (last (stdout (snd
     (bench_file demo_env demo_args 0 ''empty.wav'' \<lparr>world = 0, calls = [], stdout = []\<rparr>)))) = PosInf"
  using real_time_factor_reported [OF demo_bench_file] real_time_factor_reported [OF demo_bench_empty]
  by (simp add: demo_bench_file demo_bench_empty)

section \<open>What a run does, call by call\<close>

lemma file_calls_no_load: "filter is_load (file_calls cfg m path a) = []"
  by (simp add: file_calls_def filter_concat)

lemma bench_file_timings:
  assumes "bench_file E cfg m path s = (Inr u, s')"
  shows "\<exists>a s2 timings s3.
           timed_loop E (range_len (runs cfg)) a m (detect_kwargs cfg) [] s2 = (Inr timings, s3) \<and>
           int (length timings) = runs cfg \<and> 1 \<le> runs cfg \<and>
           aggregate timings =
             Inr (rep_mean (last (stdout s')), rep_min (last (stdout s')), rep_max (last (stdout s')))"
proof -
  from assms obtain a s2 s3 timings mean_time min_time max_time rtf where
    t: "timed_loop E (range_len (runs cfg)) a m (detect_kwargs cfg) [] s2 = (Inr timings, s3)" and
    g: "aggregate timings = Inr (mean_time, min_time, max_time)" and
    s': "s' = s3\<lparr>stdout := stdout s3 @
             [\<lparr>rep_path = path, rep_duration = real (length a) / real_of_int (sampling_rate cfg),
               rep_runs = runs cfg, rep_warmup = warmup cfg, rep_mean = mean_time,
               rep_min = min_time, rep_max = max_time, rep_rtf = rtf\<rparr>]\<rparr>"
    by (rule bench_file_success) blast
  from timed_loop_calls [OF t] have len: "length timings = range_len (runs cfg)"
    by simp
  from g have "timings \<noteq> []"
    by (auto simp: aggregate_empty)
  then have "0 < length timings"
    by simp
  with len have "0 < nat (runs cfg)"
    by (simp only: range_len_def)
  then have "1 \<le> runs cfg"
    by arith
  with len have "1 \<le> runs cfg" "int (length timings) = runs cfg"
    by (simp_all add: range_len_def)
  with t g s' show ?thesis
    by auto
qed

text \<open>
  C2. For a non-empty list of recorded timings, the mean the runner computes is the sum of
  exactly those values divided by their number, and the minimum and maximum it computes are
  the least and the greatest of them. When the benchmark of a file completes, the mean,
  minimum and maximum it reports are those of the timings its timed loop recorded.
\<close>

theorem aggregate_is_mean_min_max:
  "(timings \<noteq> [] \<longrightarrow>
      statistics_mean timings = Inr (sum_list timings / real (length timings)) \<and>
      py_min timings = Inr (Min (set timings)) \<and>
      py_max timings = Inr (Max (set timings)) \<and>
      aggregate timings =
        Inr (sum_list timings / real (length timings), Min (set timings), Max (set timings))) \<and>
   (bench_file E cfg m path s = (Inr u, s') \<longrightarrow>
      (\<exists>a s2 recorded s3.
         timed_loop E (range_len (runs cfg)) a m (detect_kwargs cfg) [] s2 = (Inr recorded, s3) \<and>
         recorded \<noteq> [] \<and>
         rep_mean (last (stdout s')) = sum_list recorded / real (length recorded) \<and>
         rep_min (last (stdout s')) = Min (set recorded) \<and>
         rep_max (last (stdout s')) = Max (set recorded)))"
proof -
  have "\<exists>a s2 recorded s3.
         timed_loop E (range_len (runs cfg)) a m (detect_kwargs cfg) [] s2 = (Inr recorded, s3) \<and>
         recorded \<noteq> [] \<and>
         rep_mean (last (stdout s')) = sum_list recorded / real (length recorded) \<and>
         rep_min (last (stdout s')) = Min (set recorded) \<and>
         rep_max (last (stdout s')) = Max (set recorded)"
    if run: "bench_file E cfg m path s = (Inr u, s')"
  proof -
    from bench_file_timings [OF run] obtain a s2 recorded s3 where
      t: "timed_loop E (range_len (runs cfg)) a m (detect_kwargs cfg) [] s2 = (Inr recorded, s3)" and
      n: "int (length recorded) = runs cfg" "1 \<le> runs cfg" and
      g: "aggregate recorded =
            Inr (rep_mean (last (stdout s')), rep_min (last (stdout s')), rep_max (last (stdout s')))"
      by blast
    from n have ne: "recorded \<noteq> []"
      by auto
    from g aggregate_nonempty [OF ne]
    have "rep_mean (last (stdout s')) = sum_list recorded / real (length recorded)"
      "rep_min (last (stdout s')) = Min (set recorded)"
      "rep_max (last (stdout s')) = Max (set recorded)"
      by simp_all
    with t ne show ?thesis
      by blast
  qed
  then show ?thesis
    by (simp add: statistics_mean_eq py_min_eq py_max_eq aggregate_nonempty)
qed

text \<open>
  The scenario of three timed calls that take 0.10, 0.20 and 0.30 seconds, with no warmup:
  the clock reads 0, 0.1, 0.1, 0.3, 0.3 and 0.6.
\<close>

lemma clock_bench_file:
  "bench_file clock_env (demo_args\<lparr>runs := 3, warmup := 0\<rparr>) 0 ''a.wav''
     \<lparr>world = [0, 1/10, 1/10, 3/10, 3/10, 6/10], calls = [], stdout = []\<rparr> =
     (Inr (),
      \<lparr>world = [],
       calls = file_calls (demo_args\<lparr>runs := 3, warmup := 0\<rparr>) 0 ''a.wav'' [0, 0, 0, 0],
       stdout = [\<lparr>rep_path = ''a.wav'', rep_duration = 2, rep_runs = 3, rep_warmup = 0,
                  rep_mean = 2/10, rep_min = 1/10, rep_max = 3/10, rep_rtf = Finite (1/10)\<rparr>]\<rparr>)"
  by (simp add: demo_run_defs clock_env_def file_calls_def)

theorem aggregate_is_mean_min_max_witness:
  "[1/10, 2/10, 3/10] \<noteq> ([]::real list) \<and>
   statistics_mean [1/10, 2/10, 3/10] = Inr (2/10) \<and>
   py_min [1/10, 2/10, 3/10] = Inr (1/10) \<and>
   py_max [1/10, 2/10, 3/10] = Inr (3/10) \<and>
   aggregate [1/10, 2/10, 3/10] = Inr (2/10, 1/10, 3/10) \<and>
   bench_file clock_env (demo_args\<lparr>runs := 3, warmup := 0\<rparr>) 0 ''a.wav''
     \<lparr>world = [0, 1/10, 1/10, 3/10, 3/10, 6/10], calls = [], stdout = []\<rparr> =
     (Inr (),
      \<lparr>world = [],
       calls = file_calls (demo_args\<lparr>runs := 3, warmup := 0\<rparr>) 0 ''a.wav'' [0, 0, 0, 0],
       stdout = [\<lparr>rep_path = ''a.wav'', rep_duration = 2, rep_runs = 3, rep_warmup = 0,
                  rep_mean = 2/10, rep_min = 1/10, rep_max = 3/10, rep_rtf = Finite (1/10)\<rparr>]\<rparr>)"
  using aggregate_is_mean_min_max [of "[1/10, 2/10, 3/10]" clock_env
      "demo_args\<lparr>runs := 3, warmup := 0\<rparr>" 0 "''a.wav''"
      "\<lparr>world = [0, 1/10, 1/10, 3/10, 3/10, 6/10], calls = [], stdout = []\<rparr>"]
    clock_bench_file
  by simp

lemma do_detect_world:
  "do_detect E a m kw s = (r, s') \<Longrightarrow> get_speech_timestamps E a m kw (world s) = (r, world s')"
  by (auto simp: do_detect_def split: prod.splits)

lemma do_perf_world: "do_perf E s = (t, s') \<Longrightarrow> perf_counter E (world s) = (t, world s')"
  by (auto simp: do_perf_def split: prod.splits)

lemma do_read_world:
  "do_read E p sr s = (r, s') \<Longrightarrow> read_audio E p sr (world s) = (r, world s')"
  by (auto simp: do_read_def split: prod.splits)

lemma do_load_world:
  "do_load E b v s = (r, s') \<Longrightarrow> load_silero_vad E b v (world s) = (r, world s')"
  by (auto simp: do_load_def split: prod.splits)

lemma warmup_loop_world:
  "warmup_loop E n a m kw s = (Inr u, s') \<Longrightarrow> detections E n a m kw (world s) = Some (world s')"
proof (induction n arbitrary: s)
  case 0
  then show ?case by simp
next
  case (Suc n)
  obtain r s1 where d: "do_detect E a m kw s = (r, s1)"
    by (cases "do_detect E a m kw s")
  with Suc.prems obtain v where r: "r = Inr v" and rest: "warmup_loop E n a m kw s1 = (Inr u, s')"
    by (cases r) auto
  from do_detect_world [OF d] r Suc.IH [OF rest] show ?case
    by simp
qed

lemma timed_loop_world:
  "timed_loop E n a m kw timings s = (Inr ts, s') \<Longrightarrow>
     \<exists>elapsed. timed_detections E n a m kw (world s) = Some (elapsed, world s') \<and>
               ts = timings @ elapsed"
proof (induction n arbitrary: s timings)
  case 0
  then show ?case by simp
next
  case (Suc n)
  obtain start s1 where p1: "do_perf E s = (start, s1)"
    by (cases "do_perf E s")
  obtain r s2 where d: "do_detect E a m kw s1 = (r, s2)"
    by (cases "do_detect E a m kw s1")
  obtain stop s3 where p2: "do_perf E s2 = (stop, s3)"
    by (cases "do_perf E s2")
  from Suc.prems p1 d obtain v where r: "r = Inr v"
    by (cases r) auto
  with Suc.prems p1 d p2
  have rest: "timed_loop E n a m kw (timings @ [stop - start]) s3 = (Inr ts, s')"
    by simp
  from Suc.IH [OF rest] obtain elapsed where
    e: "timed_detections E n a m kw (world s3) = Some (elapsed, world s')"
       "ts = (timings @ [stop - start]) @ elapsed"
    by blast
  from do_perf_world [OF p1] do_detect_world [OF d] do_perf_world [OF p2] r e
  have "timed_detections E (Suc n) a m kw (world s) = Some ((stop - start) # elapsed, world s') \<and>
        ts = timings @ (stop - start) # elapsed"
    by simp
  then show ?case by blast
qed

lemma bench_file_run:
  assumes "bench_file E cfg m path s = (Inr u, s')"
  shows "\<exists>a elapsed.
           file_run E cfg m path (world s) = Some (a, elapsed, world s') \<and>
           int (length elapsed) = runs cfg \<and>
           calls s' = calls s @ file_calls cfg m path a \<and>
           stdout s' = stdout s @ [expected_report cfg path a elapsed]"
proof -
  from assms obtain a s1 s2 s3 timings mean_time min_time max_time rtf where
    r: "do_read E path (sampling_rate cfg) s = (Inr a, s1)" and
    w: "warmup_loop E (range_len (warmup cfg)) a m (detect_kwargs cfg) s1 = (Inr (), s2)" and
    t: "timed_loop E (range_len (runs cfg)) a m (detect_kwargs cfg) [] s2 = (Inr timings, s3)" and
    g: "aggregate timings = Inr (mean_time, min_time, max_time)" and
    f: "real_time_factor mean_time (real (length a) / real_of_int (sampling_rate cfg)) = Inr rtf" and
    s': "s' = s3\<lparr>stdout := stdout s3 @
             [\<lparr>rep_path = path, rep_duration = real (length a) / real_of_int (sampling_rate cfg),
               rep_runs = runs cfg, rep_warmup = warmup cfg, rep_mean = mean_time,
               rep_min = min_time, rep_max = max_time, rep_rtf = rtf\<rparr>]\<rparr>"
    by (rule bench_file_success) blast
  have n: "range_len (warmup cfg) = nat (max (warmup cfg) 0)" "range_len (runs cfg) = nat (max (runs cfg) 0)"
    by (simp_all add: range_len_def max_def)
  from timed_loop_world [OF t] have td:
    "timed_detections E (range_len (runs cfg)) a m (detect_kwargs cfg) (world s2) = Some (timings, world s3)"
    by simp
  from do_read_world [OF r] warmup_loop_world [OF w] td s'
  have run: "file_run E cfg m path (world s) = Some (a, timings, world s')"
    by (simp add: file_run_def n)
  from g have ne: "timings \<noteq> []"
    by (auto simp: aggregate_empty)
  from timed_loop_calls [OF t] have len: "length timings = range_len (runs cfg)"
    by simp
  from ne have "0 < length timings"
    by simp
  with len have "0 < nat (runs cfg)"
    by (simp only: range_len_def)
  then have "1 \<le> runs cfg"
    by arith
  with len have lenr: "int (length timings) = runs cfg"
    by (simp add: range_len_def)
  from g aggregate_nonempty [OF ne]
  have agg: "mean_time = sum_list timings / real (length timings)"
    "min_time = Min (set timings)" "max_time = Max (set timings)"
    by simp_all
  from f have rt: "rtf = (if real (length a) / real_of_int (sampling_rate cfg) = 0 then PosInf
      else Finite (mean_time / (real (length a) / real_of_int (sampling_rate cfg))))"
    by (simp only: real_time_factor_eq sum.inject)
  from do_read_calls [OF r] warmup_loop_calls [OF w] timed_loop_calls [OF t] s'
  have cs: "calls s' = calls s @ file_calls cfg m path a" and so: "stdout s3 = stdout s"
    by (simp_all add: file_calls_def range_len_def)
  from s' so agg rt have "stdout s' = stdout s @ [expected_report cfg path a timings]"
    by (simp add: expected_report_def)
  with run lenr cs show ?thesis
    by blast
qed

lemma files_loop_run:
  "files_loop E cfg m paths s = (Inr u, s') \<Longrightarrow>
     \<exists>rs. files_run E cfg m paths (world s) = Some (rs, world s') \<and>
          length rs = length paths \<and>
          list_all (\<lambda>(a, elapsed). int (length elapsed) = runs cfg) rs \<and>
          calls s' = calls s @ concat (map2 (\<lambda>path (a, elapsed). file_calls cfg m path a) paths rs) \<and>
          stdout s' = stdout s @ map2 (\<lambda>path (a, elapsed). expected_report cfg path a elapsed) paths rs"
proof (induction paths arbitrary: s)
  case Nil
  then show ?case by simp
next
  case (Cons path paths)
  obtain r s1 where b: "bench_file E cfg m path s = (r, s1)"
    by (cases "bench_file E cfg m path s")
  with Cons.prems have r: "r = Inr ()" and rest: "files_loop E cfg m paths s1 = (Inr u, s')"
    by (cases r; simp)+
  from bench_file_run [OF b [unfolded r]] obtain a elapsed where
    one: "file_run E cfg m path (world s) = Some (a, elapsed, world s1)"
      "int (length elapsed) = runs cfg"
      "calls s1 = calls s @ file_calls cfg m path a"
      "stdout s1 = stdout s @ [expected_report cfg path a elapsed]"
    by blast
  from Cons.IH [OF rest] obtain rs where
    more: "files_run E cfg m paths (world s1) = Some (rs, world s')"
      "length rs = length paths"
      "list_all (\<lambda>(a, elapsed). int (length elapsed) = runs cfg) rs"
      "calls s' = calls s1 @ concat (map2 (\<lambda>path (a, elapsed). file_calls cfg m path a) paths rs)"
      "stdout s' = stdout s1 @ map2 (\<lambda>path (a, elapsed). expected_report cfg path a elapsed) paths rs"
    by blast
  from one more have
    "files_run E cfg m (path # paths) (world s) = Some ((a, elapsed) # rs, world s') \<and>
     length ((a, elapsed) # rs) = length (path # paths) \<and>
     list_all (\<lambda>(a, elapsed). int (length elapsed) = runs cfg) ((a, elapsed) # rs) \<and>
     calls s' = calls s @ concat (map2 (\<lambda>path (a, elapsed). file_calls cfg m path a)
                                       (path # paths) ((a, elapsed) # rs)) \<and>
     stdout s' = stdout s @ map2 (\<lambda>path (a, elapsed). expected_report cfg path a elapsed)
                                 (path # paths) ((a, elapsed) # rs)"
    by simp
  then show ?case by blast
qed

lemma file_calls_counts:
  "length (filter is_read (file_calls cfg m path a)) = 1 \<and>
   length (filter is_detect (file_calls cfg m path a)) =
     nat (max (warmup cfg) 0) + nat (max (runs cfg) 0)"
proof -
  have "length (filter is_detect (concat (replicate n [PerfCounter, GetSpeechTimestamps a m kw, PerfCounter]))) = n"
    and "filter is_read (concat (replicate n [PerfCounter, GetSpeechTimestamps a m kw, PerfCounter])) = []"
    for n kw
    by (induction n) simp_all
  then show ?thesis
    by (simp add: file_calls_def max_def)
qed

lemma demo_main:
  "main demo_env demo_args 0 =
     (Inr (),
      \<lparr>world = 4,
       calls = [LoadSileroVad False (Some 16), ReadAudio ''a.wav'' 2,
                GetSpeechTimestamps [0, 0, 0, 0] 0 [Threshold (1/2), SamplingRate 2, ReturnSeconds False],
                PerfCounter,
                GetSpeechTimestamps [0, 0, 0, 0] 0 [Threshold (1/2), SamplingRate 2, ReturnSeconds False],
                PerfCounter,
                PerfCounter,
                GetSpeechTimestamps [0, 0, 0, 0] 0 [Threshold (1/2), SamplingRate 2, ReturnSeconds False],
                PerfCounter],
       stdout = [\<lparr>rep_path = ''a.wav'', rep_duration = 2, rep_runs = 2, rep_warmup = 1,
                  rep_mean = 1/2, rep_min = 1/2, rep_max = 1/2, rep_rtf = Finite (1/4)\<rparr>]\<rparr>)"
  by (simp add: demo_run_defs)

text \<open>
  C6, as stated, fails: a warmup count of -1 is a Run Configuration (\<open>--warmup -1\<close>), and the
  run completes with no warmup call at all, so detection is called twice for the file, not
  \<open>warmup + runs = 1\<close> times.
\<close>

theorem negative_warmup_makes_no_call:
  "fst (main demo_env (demo_args\<lparr>warmup := - 1\<rparr>) 0) = Inr () \<and>
   calls (snd (main demo_env (demo_args\<lparr>warmup := - 1\<rparr>) 0)) =
     [LoadSileroVad False (Some 16), ReadAudio ''a.wav'' 2,
      PerfCounter,
      GetSpeechTimestamps [0, 0, 0, 0] 0 [Threshold (1/2), SamplingRate 2, ReturnSeconds False],
      PerfCounter,
      PerfCounter,
      GetSpeechTimestamps [0, 0, 0, 0] 0 [Threshold (1/2), SamplingRate 2, ReturnSeconds False],
      PerfCounter] \<and>
   int (length (filter is_detect (calls (snd (main demo_env (demo_args\<lparr>warmup := - 1\<rparr>) 0))))) \<noteq>
     warmup (demo_args\<lparr>warmup := - 1\<rparr>) + runs (demo_args\<lparr>warmup := - 1\<rparr>)"
  by (simp add: demo_run_defs)

text \<open>
  C6, amended. When a run completes, the runner has loaded the model once, in the world it
  started in, and has then taken the files in turn, each in the world the one before left:
  it has read the file once, called detection \<open>max(warmup, 0)\<close> times with the results dropped,
  then \<open>runs\<close> more times, recording for each of these the reading of the clock after the
  call minus the reading before it. The calls it made are exactly these, in this order; the
  timings aggregated for a file are exactly \<open>runs\<close> many, and the report of the file shows
  their mean, minimum and maximum.
\<close>

theorem benchmark_runs_as_specified:
  assumes "main E cfg w = (Inr u, s)"
  shows "\<exists>m w0 rs.
           load_silero_vad E (onnx cfg) (Some (opset cfg)) w = (Inr m, w0) \<and>
           files_run E cfg m (audio cfg) w0 = Some (rs, world s) \<and>
           length rs = length (audio cfg) \<and>
           list_all (\<lambda>(a, elapsed). int (length elapsed) = runs cfg) rs \<and>
           calls s = LoadSileroVad (onnx cfg) (Some (opset cfg)) #
                     concat (map2 (\<lambda>path (a, elapsed). file_calls cfg m path a) (audio cfg) rs) \<and>
           stdout s = map2 (\<lambda>path (a, elapsed). expected_report cfg path a elapsed) (audio cfg) rs \<and>
           length (filter is_load (calls s)) = 1 \<and>
           (\<forall>path a. length (filter is_read (file_calls cfg m path a)) = 1 \<and>
                     length (filter is_detect (file_calls cfg m path a)) =
                       nat (max (warmup cfg) 0) + nat (max (runs cfg) 0))"
proof -
  let ?s0 = "\<lparr>world = w, calls = [], stdout = []\<rparr>"
  obtain r s1 where l: "do_load E (onnx cfg) (Some (opset cfg)) ?s0 = (r, s1)"
    by (cases "do_load E (onnx cfg) (Some (opset cfg)) ?s0")
  with assms obtain m where r: "r = Inr m" and rest: "files_loop E cfg m (audio cfg) s1 = (Inr u, s)"
    by (cases r) (auto simp: main_def)
  from do_load_world [OF l] r
  have ld: "load_silero_vad E (onnx cfg) (Some (opset cfg)) w = (Inr m, world s1)"
    by simp
  from do_load_calls [OF l]
  have c1: "calls s1 = [LoadSileroVad (onnx cfg) (Some (opset cfg))]" and o1: "stdout s1 = []"
    by simp_all
  from files_loop_run [OF rest] obtain rs where
    run: "files_run E cfg m (audio cfg) (world s1) = Some (rs, world s)" and
    len: "length rs = length (audio cfg)" and
    cnt: "list_all (\<lambda>(a, elapsed). int (length elapsed) = runs cfg) rs" and
    cs: "calls s = calls s1 @
           concat (map2 (\<lambda>path (a, elapsed). file_calls cfg m path a) (audio cfg) rs)" and
    out: "stdout s = stdout s1 @
           map2 (\<lambda>path (a, elapsed). expected_report cfg path a elapsed) (audio cfg) rs"
    by blast
  have noload: "filter is_load (concat (map2 (\<lambda>path (a, elapsed). file_calls cfg m path a) ps rs)) = []"
    for ps
  proof (induction ps arbitrary: rs)
    case Nil
    show ?case by simp
  next
    case (Cons p ps)
    then show ?case
      by (cases rs) (auto simp: file_calls_no_load)
  qed
  from cs c1 noload have one: "length (filter is_load (calls s)) = 1"
    by simp
  from ld run len cnt cs c1 out o1 one file_calls_counts show ?thesis
    by auto
qed

theorem benchmark_runs_as_specified_witness:
  "fst (main demo_env demo_args 0) = Inr () \<and>
   load_silero_vad demo_env (onnx demo_args) (Some (opset demo_args)) 0 = (Inr 0, 0) \<and>
   files_run demo_env demo_args 0 (audio demo_args) 0 =
     Some ([([0, 0, 0, 0], [1/2, 1/2])], world (snd (main demo_env demo_args 0))) \<and>
   calls (snd (main demo_env demo_args 0)) =
     LoadSileroVad False (Some 16) # file_calls demo_args 0 ''a.wav'' [0, 0, 0, 0] \<and>
   stdout (snd (main demo_env demo_args 0)) =
     [expected_report demo_args ''a.wav'' [0, 0, 0, 0] [1/2, 1/2]] \<and>
   length (filter is_load (calls (snd (main demo_env demo_args 0)))) = 1"
proof -
  let ?s = "snd (main demo_env demo_args 0)"
  have run: "main demo_env demo_args 0 = (Inr (), ?s)"
    by (simp add: demo_main)
  have ld: "load_silero_vad demo_env (onnx demo_args) (Some (opset demo_args)) 0 = (Inr 0, 0)"
    by (simp add: demo_env_def)
  have au: "audio demo_args = [''a.wav'']" and bo: "onnx demo_args = False" "opset demo_args = 16"
    by (simp_all add: demo_args_def)
  have spec: "files_run demo_env demo_args 0 [''a.wav''] 0 = Some ([([0, 0, 0, 0], [1/2, 1/2])], 4)"
    by (simp add: file_run_def demo_env_def demo_args_def detect_kwargs_def eval_nat_numeral)
  from benchmark_runs_as_specified [OF run] obtain m w0 rs where
    l: "load_silero_vad demo_env (onnx demo_args) (Some (opset demo_args)) 0 = (Inr m, w0)" and
    f: "files_run demo_env demo_args m (audio demo_args) w0 = Some (rs, world ?s)" and
    c: "calls ?s = LoadSileroVad (onnx demo_args) (Some (opset demo_args)) #
          concat (map2 (\<lambda>path (a, elapsed). file_calls demo_args m path a) (audio demo_args) rs)" and
    p: "stdout ?s =
          map2 (\<lambda>path (a, elapsed). expected_report demo_args path a elapsed) (audio demo_args) rs" and
    n: "length (filter is_load (calls ?s)) = 1"
    by blast
  from l ld have m: "m = 0" "w0 = 0"
    by simp_all
  from f m au spec have rs: "rs = [([0, 0, 0, 0], [1/2, 1/2])]" and w: "world ?s = 4"
    by simp_all
  from run have "fst (main demo_env demo_args 0) = Inr ()"
    by (metis fst_conv)
  moreover from f m rs have "files_run demo_env demo_args 0 (audio demo_args) 0 =
      Some ([([0, 0, 0, 0], [1/2, 1/2])], world ?s)"
    by simp
  moreover from c m rs au bo have "calls ?s =
      LoadSileroVad False (Some 16) # file_calls demo_args 0 ''a.wav'' [0, 0, 0, 0]"
    by simp
  moreover from p rs au have "stdout ?s = [expected_report demo_args ''a.wav'' [0, 0, 0, 0] [1/2, 1/2]]"
    by simp
  ultimately show ?thesis
    using ld n by blast
qed

text \<open>
  C7. With \<open>runs \<ge> 1\<close> the timed loop hands \<open>runs\<close> samples to the aggregation, which is then
  defined: it returns their mean, minimum and maximum, and no exception. With \<open>runs = 0\<close> the
  list is empty, nothing guards the aggregation, \<open>statistics.mean\<close> raises
  \<open>StatisticsError\<close>, and the benchmark of a file never completes.
\<close>

theorem aggregate_defined_iff_runs:
  assumes "timed_loop E (range_len (runs cfg)) a m kw [] s = (Inr timings, s')"
  shows "(1 \<le> runs cfg \<longrightarrow>
            int (length timings) = runs cfg \<and>
            aggregate timings =
              Inr (sum_list timings / real (length timings), Min (set timings), Max (set timings))) \<and>
         (runs cfg = 0 \<longrightarrow>
            timings = [] \<and> aggregate timings = Inl StatisticsError \<and>
            (\<forall>path s0. fst (bench_file E cfg m path s0) \<noteq> Inr ()))"
proof -
  from timed_loop_calls [OF assms] have len: "length timings = nat (runs cfg)"
    by (simp add: range_len_def)
  have pos: "int (length timings) = runs cfg \<and>
      aggregate timings =
        Inr (sum_list timings / real (length timings), Min (set timings), Max (set timings))"
    if "1 \<le> runs cfg"
  proof -
    from that len have "timings \<noteq> []" "int (length timings) = runs cfg"
      by auto
    then show ?thesis
      by (simp add: aggregate_nonempty)
  qed
  have zero: "timings = [] \<and> aggregate timings = Inl StatisticsError \<and>
      (\<forall>path s0. fst (bench_file E cfg m path s0) \<noteq> Inr ())"
    if z: "runs cfg = 0"
  proof -
    from z len have e: "timings = []"
      by simp
    have "fst (bench_file E cfg m path s0) \<noteq> Inr ()" for path s0
    proof
      assume "fst (bench_file E cfg m path s0) = Inr ()"
      then have "bench_file E cfg m path s0 = (Inr (), snd (bench_file E cfg m path s0))"
        by (metis prod.collapse)
      from bench_file_timings [OF this] z show False
        by auto
    qed
    with e show ?thesis
      by (simp add: aggregate_empty)
  qed
  from pos zero show ?thesis
    by blast
qed

lemma demo_timed_two:
  "timed_loop demo_env (range_len (runs demo_args)) [0, 0, 0, 0] 0 [] []
     \<lparr>world = 0, calls = [], stdout = []\<rparr> =
   (Inr [1/2, 1/2],
    \<lparr>world = 4,
     calls = [PerfCounter, GetSpeechTimestamps [0, 0, 0, 0] 0 [], PerfCounter,
              PerfCounter, GetSpeechTimestamps [0, 0, 0, 0] 0 [], PerfCounter],
     stdout = []\<rparr>)"
  by (simp add: demo_run_defs)

lemma demo_timed_zero:
  "timed_loop demo_env (range_len (runs (demo_args\<lparr>runs := 0\<rparr>))) [0, 0, 0, 0] 0 [] []
     \<lparr>world = 0, calls = [], stdout = []\<rparr> =
   (Inr [], \<lparr>world = 0, calls = [], stdout = []\<rparr>)"
  by (simp add: demo_run_defs)

theorem aggregate_defined_iff_runs_witness:
  "1 \<le> runs demo_args \<and> aggregate [1/2, 1/2] = Inr (1/2, 1/2, 1/2) \<and>
   runs (demo_args\<lparr>runs := 0\<rparr>) = 0 \<and> aggregate [] = Inl StatisticsError \<and>
   main demo_env (demo_args\<lparr>runs := 0\<rparr>) 0 =
     (Inl StatisticsError,
      \<lparr>world = 0,
       calls = [LoadSileroVad False (Some 16), ReadAudio ''a.wav'' 2,
                GetSpeechTimestamps [0, 0, 0, 0] 0 [Threshold (1/2), SamplingRate 2, ReturnSeconds False]],
       stdout = []\<rparr>)"
proof -
  have one: "1 \<le> runs demo_args"
    by (simp add: demo_args_def)
  have zero: "runs (demo_args\<lparr>runs := 0\<rparr>) = 0"
    by simp
  have run0: "main demo_env (demo_args\<lparr>runs := 0\<rparr>) 0 =
     (Inl StatisticsError,
      \<lparr>world = 0,
       calls = [LoadSileroVad False (Some 16), ReadAudio ''a.wav'' 2,
                GetSpeechTimestamps [0, 0, 0, 0] 0 [Threshold (1/2), SamplingRate 2, ReturnSeconds False]],
       stdout = []\<rparr>)"
    by (simp add: demo_run_defs)
  from aggregate_defined_iff_runs [OF demo_timed_two] aggregate_defined_iff_runs [OF demo_timed_zero]
    one zero run0
  show ?thesis
    by simp
qed

section \<open>Runs that differ in the opset value\<close>

lemma sim_do_detect:
  "same_but_first_call s t \<Longrightarrow>
     fst (do_detect E a m kw s) = fst (do_detect E a m kw t) \<and>
     same_but_first_call (snd (do_detect E a m kw s)) (snd (do_detect E a m kw t))"
  by (simp add: same_but_first_call_def do_detect_def split: prod.splits)

lemma sim_do_perf:
  "same_but_first_call s t \<Longrightarrow>
     fst (do_perf E s) = fst (do_perf E t) \<and>
     same_but_first_call (snd (do_perf E s)) (snd (do_perf E t))"
  by (simp add: same_but_first_call_def do_perf_def split: prod.splits)

lemma sim_do_read:
  "same_but_first_call s t \<Longrightarrow>
     fst (do_read E p sr s) = fst (do_read E p sr t) \<and>
     same_but_first_call (snd (do_read E p sr s)) (snd (do_read E p sr t))"
  by (simp add: same_but_first_call_def do_read_def split: prod.splits)

lemma sim_warmup_loop:
  "same_but_first_call s t \<Longrightarrow>
     fst (warmup_loop E n a m kw s) = fst (warmup_loop E n a m kw t) \<and>
     same_but_first_call (snd (warmup_loop E n a m kw s)) (snd (warmup_loop E n a m kw t))"
proof (induction n arbitrary: s t)
  case 0
  then show ?case by simp
next
  case (Suc n)
  obtain r s1 where ds: "do_detect E a m kw s = (r, s1)"
    by (cases "do_detect E a m kw s")
  obtain r' t1 where dt: "do_detect E a m kw t = (r', t1)"
    by (cases "do_detect E a m kw t")
  from sim_do_detect [OF Suc.prems, of E a m kw] ds dt
  have eq: "r' = r" and sim: "same_but_first_call s1 t1"
    by simp_all
  show ?case
  proof (cases r)
    case (Inl e)
    with ds dt eq sim show ?thesis by simp
  next
    case (Inr v)
    with ds dt eq Suc.IH [OF sim] show ?thesis by simp
  qed
qed

lemma sim_timed_loop:
  "same_but_first_call s t \<Longrightarrow>
     fst (timed_loop E n a m kw timings s) = fst (timed_loop E n a m kw timings t) \<and>
     same_but_first_call (snd (timed_loop E n a m kw timings s)) (snd (timed_loop E n a m kw timings t))"
proof (induction n arbitrary: s t timings)
  case 0
  then show ?case by simp
next
  case (Suc n)
  obtain start s1 where ps: "do_perf E s = (start, s1)"
    by (cases "do_perf E s")
  obtain start' t1 where pt: "do_perf E t = (start', t1)"
    by (cases "do_perf E t")
  from sim_do_perf [OF Suc.prems, of E] ps pt
  have eq1: "start' = start" and sim1: "same_but_first_call s1 t1"
    by simp_all
  obtain r s2 where ds: "do_detect E a m kw s1 = (r, s2)"
    by (cases "do_detect E a m kw s1")
  obtain r' t2 where dt: "do_detect E a m kw t1 = (r', t2)"
    by (cases "do_detect E a m kw t1")
  from sim_do_detect [OF sim1, of E a m kw] ds dt
  have eq2: "r' = r" and sim2: "same_but_first_call s2 t2"
    by simp_all
  obtain stop s3 where qs: "do_perf E s2 = (stop, s3)"
    by (cases "do_perf E s2")
  obtain stop' t3 where qt: "do_perf E t2 = (stop', t3)"
    by (cases "do_perf E t2")
  from sim_do_perf [OF sim2, of E] qs qt
  have eq3: "stop' = stop" and sim3: "same_but_first_call s3 t3"
    by simp_all
  show ?case
  proof (cases r)
    case (Inl e)
    with ps pt ds dt eq1 eq2 sim2 show ?thesis by simp
  next
    case (Inr v)
    with ps pt ds dt qs qt eq1 eq2 eq3 Suc.IH [OF sim3] show ?thesis by simp
  qed
qed

lemma sim_stdout_append:
  "same_but_first_call s t \<Longrightarrow>
     same_but_first_call (s\<lparr>stdout := stdout s @ [rep]\<rparr>) (t\<lparr>stdout := stdout t @ [rep]\<rparr>)"
  by (simp add: same_but_first_call_def)

lemma sim_bench_file:
  assumes "same_but_first_call s t"
  shows "fst (bench_file E cfg m path s) = fst (bench_file E cfg m path t) \<and>
         same_but_first_call (snd (bench_file E cfg m path s)) (snd (bench_file E cfg m path t))"
proof -
  let ?sr = "sampling_rate cfg" and ?kw = "detect_kwargs cfg"
  obtain r s1 where rs: "do_read E path ?sr s = (r, s1)"
    by (cases "do_read E path ?sr s")
  obtain r' t1 where rt: "do_read E path ?sr t = (r', t1)"
    by (cases "do_read E path ?sr t")
  from sim_do_read [OF assms, of E path ?sr] rs rt
  have eq1: "r' = r" and sim1: "same_but_first_call s1 t1"
    by simp_all
  show ?thesis
  proof (cases r)
    case (Inl e)
    with rs rt eq1 sim1 show ?thesis by (simp add: bench_file_def)
  next
    case (Inr a)
    note ra = this
    show ?thesis
    proof (cases "truediv (real (length a)) (real_of_int ?sr)")
      case (Inl e)
      with ra rs rt eq1 sim1 show ?thesis by (simp add: bench_file_def)
    next
      case (Inr d)
      note dur = this
      obtain u s2 where ws: "warmup_loop E (range_len (warmup cfg)) a m ?kw s1 = (u, s2)"
        by (cases "warmup_loop E (range_len (warmup cfg)) a m ?kw s1")
      obtain u' t2 where wt: "warmup_loop E (range_len (warmup cfg)) a m ?kw t1 = (u', t2)"
        by (cases "warmup_loop E (range_len (warmup cfg)) a m ?kw t1")
      from sim_warmup_loop [OF sim1, of E "range_len (warmup cfg)" a m ?kw] ws wt
      have eq2: "u' = u" and sim2: "same_but_first_call s2 t2"
        by simp_all
      show ?thesis
      proof (cases u)
        case (Inl e)
        with ra dur rs rt ws wt eq1 eq2 sim2 show ?thesis by (simp add: bench_file_def)
      next
        case (Inr v)
        note wu = this
        obtain x s3 where ts: "timed_loop E (range_len (runs cfg)) a m ?kw [] s2 = (x, s3)"
          by (cases "timed_loop E (range_len (runs cfg)) a m ?kw [] s2")
        obtain x' t3 where tt: "timed_loop E (range_len (runs cfg)) a m ?kw [] t2 = (x', t3)"
          by (cases "timed_loop E (range_len (runs cfg)) a m ?kw [] t2")
        from sim_timed_loop [OF sim2, of E "range_len (runs cfg)" a m ?kw "[]"] ts tt
        have eq3: "x' = x" and sim3: "same_but_first_call s3 t3"
          by simp_all
        from ra dur wu rs rt ws wt ts tt eq1 eq2 eq3 sim3 sim_stdout_append [OF sim3]
        show ?thesis
          by (simp add: bench_file_def split: sum.splits prod.splits)
      qed
    qed
  qed
qed

lemma sim_files_loop:
  "same_but_first_call s t \<Longrightarrow>
     fst (files_loop E cfg m paths s) = fst (files_loop E cfg m paths t) \<and>
     same_but_first_call (snd (files_loop E cfg m paths s)) (snd (files_loop E cfg m paths t))"
proof (induction paths arbitrary: s t)
  case Nil
  then show ?case by simp
next
  case (Cons path paths)
  obtain r s1 where bs: "bench_file E cfg m path s = (r, s1)"
    by (cases "bench_file E cfg m path s")
  obtain r' t1 where bt: "bench_file E cfg m path t = (r', t1)"
    by (cases "bench_file E cfg m path t")
  from sim_bench_file [OF Cons.prems, of E cfg m path] bs bt
  have eq: "r' = r" and sim: "same_but_first_call s1 t1"
    by simp_all
  show ?case
  proof (cases r)
    case (Inl e)
    with bs bt eq sim show ?thesis by simp
  next
    case (Inr v)
    with bs bt eq Cons.IH [OF sim] show ?thesis by simp
  qed
qed

lemma detect_kwargs_opset: "detect_kwargs (cfg\<lparr>opset := v\<rparr>) = detect_kwargs cfg"
  by (simp add: detect_kwargs_def)

lemma bench_file_opset: "bench_file E (cfg\<lparr>opset := v\<rparr>) m path s = bench_file E cfg m path s"
proof -
  have f: "sampling_rate (cfg\<lparr>opset := v\<rparr>) = sampling_rate cfg"
    "warmup (cfg\<lparr>opset := v\<rparr>) = warmup cfg" "runs (cfg\<lparr>opset := v\<rparr>) = runs cfg"
    by simp_all
  show ?thesis
    unfolding bench_file_def detect_kwargs_opset f ..
qed

lemma files_loop_opset: "files_loop E (cfg\<lparr>opset := v\<rparr>) m paths s = files_loop E cfg m paths s"
  by (induction paths arbitrary: s) (simp_all add: bench_file_opset split: prod.splits sum.splits)



text \<open>Every step of the runner only adds calls to the log, and never one that sets the thread count.\<close>

lemma do_load_extends: "\<exists>xs. calls (snd (do_load E b v s)) = calls s @ xs \<and> filter is_pin xs = []"
  by (simp add: do_load_def split: prod.splits)

lemma do_read_extends: "\<exists>xs. calls (snd (do_read E p sr s)) = calls s @ xs \<and> filter is_pin xs = []"
  by (simp add: do_read_def split: prod.splits)

lemma do_detect_extends:
  "\<exists>xs. calls (snd (do_detect E a m kw s)) = calls s @ xs \<and> filter is_pin xs = []"
  by (simp add: do_detect_def split: prod.splits)

lemma do_perf_extends: "\<exists>xs. calls (snd (do_perf E s)) = calls s @ xs \<and> filter is_pin xs = []"
  by (simp add: do_perf_def split: prod.splits)

lemma extends_trans:
  assumes "\<exists>xs. calls s1 = calls s @ xs \<and> filter is_pin xs = []"
    and "\<exists>ys. calls s2 = calls s1 @ ys \<and> filter is_pin ys = []"
  shows "\<exists>zs. calls s2 = calls s @ zs \<and> filter is_pin zs = []"
proof -
  from assms obtain xs ys where
    "calls s1 = calls s @ xs" "filter is_pin xs = []" "calls s2 = calls s1 @ ys" "filter is_pin ys = []"
    by blast
  then have "calls s2 = calls s @ (xs @ ys) \<and> filter is_pin (xs @ ys) = []"
    by simp
  then show ?thesis ..
qed

lemma warmup_loop_extends:
  "\<exists>xs. calls (snd (warmup_loop E n a m kw s)) = calls s @ xs \<and> filter is_pin xs = []"
proof (induction n arbitrary: s)
  case 0
  show ?case by simp
next
  case (Suc n)
  obtain r s1 where d: "do_detect E a m kw s = (r, s1)"
    by (cases "do_detect E a m kw s")
  from do_detect_extends [of E a m kw s] d
  have e1: "\<exists>xs. calls s1 = calls s @ xs \<and> filter is_pin xs = []"
    by simp
  show ?case
  proof (cases r)
    case (Inl e)
    with d e1 show ?thesis by simp
  next
    case (Inr v)
    with d extends_trans [OF e1 Suc.IH [of s1]] show ?thesis by simp
  qed
qed

lemma timed_loop_extends:
  "\<exists>xs. calls (snd (timed_loop E n a m kw timings s)) = calls s @ xs \<and> filter is_pin xs = []"
proof (induction n arbitrary: s timings)
  case 0
  show ?case by simp
next
  case (Suc n)
  obtain start s1 where p: "do_perf E s = (start, s1)"
    by (cases "do_perf E s")
  obtain r s2 where d: "do_detect E a m kw s1 = (r, s2)"
    by (cases "do_detect E a m kw s1")
  obtain stop s3 where q: "do_perf E s2 = (stop, s3)"
    by (cases "do_perf E s2")
  from do_perf_extends [of E s] p
  have e1: "\<exists>xs. calls s1 = calls s @ xs \<and> filter is_pin xs = []"
    by simp
  from do_detect_extends [of E a m kw s1] d
  have e2: "\<exists>xs. calls s2 = calls s1 @ xs \<and> filter is_pin xs = []"
    by simp
  from do_perf_extends [of E s2] q
  have e3: "\<exists>xs. calls s3 = calls s2 @ xs \<and> filter is_pin xs = []"
    by simp
  note e12 = extends_trans [OF e1 e2]
  show ?case
  proof (cases r)
    case (Inl e)
    with p d e12 show ?thesis by simp
  next
    case (Inr v)
    with p d q extends_trans [OF extends_trans [OF e12 e3] Suc.IH [where s = s3 and timings = "timings @ [stop - start]"]]
    show ?thesis by simp
  qed
qed

lemma bench_file_extends:
  "\<exists>xs. calls (snd (bench_file E cfg m path s)) = calls s @ xs \<and> filter is_pin xs = []"
proof -
  let ?sr = "sampling_rate cfg" and ?kw = "detect_kwargs cfg"
  obtain r s1 where rd: "do_read E path ?sr s = (r, s1)"
    by (cases "do_read E path ?sr s")
  from do_read_extends [of E path ?sr s] rd
  have e1: "\<exists>xs. calls s1 = calls s @ xs \<and> filter is_pin xs = []"
    by simp
  show ?thesis
  proof (cases r)
    case (Inl e)
    with rd e1 show ?thesis by (simp add: bench_file_def)
  next
    case (Inr a)
    note ra = this
    obtain u s2 where w: "warmup_loop E (range_len (warmup cfg)) a m ?kw s1 = (u, s2)"
      by (cases "warmup_loop E (range_len (warmup cfg)) a m ?kw s1")
    obtain x s3 where t: "timed_loop E (range_len (runs cfg)) a m ?kw [] s2 = (x, s3)"
      by (cases "timed_loop E (range_len (runs cfg)) a m ?kw [] s2")
    from warmup_loop_extends [of E "range_len (warmup cfg)" a m ?kw s1] w
    have "\<exists>xs. calls s2 = calls s1 @ xs \<and> filter is_pin xs = []"
      by simp
    note e2 = extends_trans [OF e1 this]
    from timed_loop_extends [of E "range_len (runs cfg)" a m ?kw "[]" s2] t
    have "\<exists>xs. calls s3 = calls s2 @ xs \<and> filter is_pin xs = []"
      by simp
    note e3 = extends_trans [OF e2 this]
    from ra rd w t e1 e2 e3 show ?thesis
      by (simp add: bench_file_def split: sum.splits prod.splits)
  qed
qed

lemma files_loop_extends:
  "\<exists>xs. calls (snd (files_loop E cfg m paths s)) = calls s @ xs \<and> filter is_pin xs = []"
proof (induction paths arbitrary: s)
  case Nil
  show ?case by simp
next
  case (Cons path paths)
  obtain r s1 where b: "bench_file E cfg m path s = (r, s1)"
    by (cases "bench_file E cfg m path s")
  from bench_file_extends [of E cfg m path s] b
  have e1: "\<exists>xs. calls s1 = calls s @ xs \<and> filter is_pin xs = []"
    by simp
  show ?case
  proof (cases r)
    case (Inl e)
    with b e1 show ?thesis by simp
  next
    case (Inr v)
    with b extends_trans [OF e1 Cons.IH [of s1]] show ?thesis by simp
  qed
qed

lemma main_first_call:
  "\<exists>xs. calls (snd (main E cfg w)) = LoadSileroVad (onnx cfg) (Some (opset cfg)) # xs \<and>
        filter is_pin xs = []"
proof -
  let ?s0 = "\<lparr>world = w, calls = [], stdout = []\<rparr>"
  obtain r s1 where l: "do_load E (onnx cfg) (Some (opset cfg)) ?s0 = (r, s1)"
    by (cases "do_load E (onnx cfg) (Some (opset cfg)) ?s0")
  then have c1: "calls s1 = [LoadSileroVad (onnx cfg) (Some (opset cfg))]"
    by (auto simp: do_load_def split: prod.splits)
  show ?thesis
  proof (cases r)
    case (Inl e)
    with l c1 show ?thesis by (simp add: main_def)
  next
    case (Inr m)
    with l c1 files_loop_extends [of E cfg m "audio cfg" s1] show ?thesis
      by (auto simp: main_def)
  qed
qed

text \<open>
  C8, as stated, fails: with the ONNX backend off, the runner still hands the opset value to
  \<open>load_silero_vad\<close>, so two runs that differ in it make different calls.
\<close>

theorem opset_passed_when_onnx_off:
  "\<not> onnx demo_args \<and>
   hd (calls (snd (main demo_env (demo_args\<lparr>opset := 15\<rparr>) 0))) = LoadSileroVad False (Some 15) \<and>
   hd (calls (snd (main demo_env demo_args 0))) = LoadSileroVad False (Some 16) \<and>
   calls (snd (main demo_env (demo_args\<lparr>opset := 15\<rparr>) 0)) \<noteq> calls (snd (main demo_env demo_args 0))"
  by (simp add: demo_run_defs)

text \<open>
  C8, amended. The opset value is handed to \<open>load_silero_vad\<close> as it is, whatever the backend:
  the first call of every run is the load call with the flag and the opset of the run.
  With the ONNX backend off, two runs that differ in the opset value only, started in a world
  where loading answers both values alike, end with the same result, the same output and the
  same calls but for the opset argument of the load call, which is the first call of each.
\<close>

theorem opset_only_in_load_call:
  assumes "\<not> onnx cfg"
    and "load_silero_vad E False (Some v) w = load_silero_vad E False (Some (opset cfg)) w"
  shows "fst (main E (cfg\<lparr>opset := v\<rparr>) w) = fst (main E cfg w) \<and>
         world (snd (main E (cfg\<lparr>opset := v\<rparr>) w)) = world (snd (main E cfg w)) \<and>
         stdout (snd (main E (cfg\<lparr>opset := v\<rparr>) w)) = stdout (snd (main E cfg w)) \<and>
         tl (calls (snd (main E (cfg\<lparr>opset := v\<rparr>) w))) = tl (calls (snd (main E cfg w))) \<and>
         hd (calls (snd (main E (cfg\<lparr>opset := v\<rparr>) w))) = LoadSileroVad False (Some v) \<and>
         hd (calls (snd (main E cfg w))) = LoadSileroVad False (Some (opset cfg)) \<and>
         (\<forall>cfg' w'. hd (calls (snd (main E cfg' w'))) = LoadSileroVad (onnx cfg') (Some (opset cfg')))"
proof -
  have general: "\<forall>cfg' w'. hd (calls (snd (main E cfg' w'))) = LoadSileroVad (onnx cfg') (Some (opset cfg'))"
  proof (intro allI)
    fix cfg' w'
    from main_first_call [of E cfg' w']
    show "hd (calls (snd (main E cfg' w'))) = LoadSileroVad (onnx cfg') (Some (opset cfg'))"
      by auto
  qed
  let ?s0 = "\<lparr>world = w, calls = [], stdout = []\<rparr>"
  obtain r w1 where l: "load_silero_vad E False (Some (opset cfg)) w = (r, w1)"
    by (cases "load_silero_vad E False (Some (opset cfg)) w")
  define s1 where "s1 = ?s0\<lparr>world := w1, calls := [LoadSileroVad False (Some (opset cfg))]\<rparr>"
  define t1 where "t1 = ?s0\<lparr>world := w1, calls := [LoadSileroVad False (Some v)]\<rparr>"
  have ls: "do_load E False (Some (opset cfg)) ?s0 = (r, s1)"
    using l by (simp add: do_load_def s1_def)
  have lt: "do_load E False (Some v) ?s0 = (r, t1)"
    using l assms(2) by (simp add: do_load_def t1_def)
  have sim: "same_but_first_call t1 s1"
    by (simp add: same_but_first_call_def s1_def t1_def)
  have heads: "hd (calls (snd (main E (cfg\<lparr>opset := v\<rparr>) w))) = LoadSileroVad False (Some v)"
    "hd (calls (snd (main E cfg w))) = LoadSileroVad False (Some (opset cfg))"
    using main_first_call [of E "cfg\<lparr>opset := v\<rparr>" w] main_first_call [of E cfg w] assms(1)
    by auto
  show ?thesis
  proof (cases r)
    case (Inl e)
    with ls lt assms(1) sim heads
    have "fst (main E (cfg\<lparr>opset := v\<rparr>) w) = fst (main E cfg w) \<and>
         world (snd (main E (cfg\<lparr>opset := v\<rparr>) w)) = world (snd (main E cfg w)) \<and>
         stdout (snd (main E (cfg\<lparr>opset := v\<rparr>) w)) = stdout (snd (main E cfg w)) \<and>
         tl (calls (snd (main E (cfg\<lparr>opset := v\<rparr>) w))) = tl (calls (snd (main E cfg w))) \<and>
         hd (calls (snd (main E (cfg\<lparr>opset := v\<rparr>) w))) = LoadSileroVad False (Some v) \<and>
         hd (calls (snd (main E cfg w))) = LoadSileroVad False (Some (opset cfg))"
      by (simp add: main_def same_but_first_call_def)
    with general show ?thesis
      by blast
  next
    case (Inr m)
    from sim_files_loop [OF sim, of E cfg m "audio cfg"]
    have "fst (files_loop E cfg m (audio cfg) t1) = fst (files_loop E cfg m (audio cfg) s1)"
      and "same_but_first_call (snd (files_loop E cfg m (audio cfg) t1))
             (snd (files_loop E cfg m (audio cfg) s1))"
      by simp_all
    with Inr ls lt assms(1) heads
    have "fst (main E (cfg\<lparr>opset := v\<rparr>) w) = fst (main E cfg w) \<and>
         world (snd (main E (cfg\<lparr>opset := v\<rparr>) w)) = world (snd (main E cfg w)) \<and>
         stdout (snd (main E (cfg\<lparr>opset := v\<rparr>) w)) = stdout (snd (main E cfg w)) \<and>
         tl (calls (snd (main E (cfg\<lparr>opset := v\<rparr>) w))) = tl (calls (snd (main E cfg w))) \<and>
         hd (calls (snd (main E (cfg\<lparr>opset := v\<rparr>) w))) = LoadSileroVad False (Some v) \<and>
         hd (calls (snd (main E cfg w))) = LoadSileroVad False (Some (opset cfg))"
      by (simp add: main_def same_but_first_call_def files_loop_opset)
    with general show ?thesis
      by blast
  qed
qed

theorem opset_only_in_load_call_witness:
  "\<not> onnx demo_args \<and>
   load_silero_vad demo_env False (Some 15) 0 = load_silero_vad demo_env False (Some (opset demo_args)) 0 \<and>
   fst (main demo_env (demo_args\<lparr>opset := 15\<rparr>) 0) = fst (main demo_env demo_args 0) \<and>
   stdout (snd (main demo_env (demo_args\<lparr>opset := 15\<rparr>) 0)) = stdout (snd (main demo_env demo_args 0)) \<and>
   tl (calls (snd (main demo_env (demo_args\<lparr>opset := 15\<rparr>) 0))) = tl (calls (snd (main demo_env demo_args 0))) \<and>
   hd (calls (snd (main demo_env (demo_args\<lparr>opset := 15\<rparr>) 0))) = LoadSileroVad False (Some 15)"
proof -
  have a: "\<not> onnx demo_args"
    by (simp add: demo_args_def)
  have b: "load_silero_vad demo_env False (Some 15) 0 =
           load_silero_vad demo_env False (Some (opset demo_args)) 0"
    by (simp add: demo_env_def)
  from opset_only_in_load_call [OF a b] a b show ?thesis
    by simp
qed


section \<open>The thread count\<close>














section \<open>Equality of records and the JSON round trip\<close>

lemma py_eq_refl: "distinct_keys v \<Longrightarrow> py_eq v v"
proof (induction v)
  case (PList xs)
  then show ?case
    by (simp add: list_all2_same list_all_iff)
next
  case (PDict kvs)
  have "case map_of kvs k of None \<Rightarrow> False | Some w \<Rightarrow> py_eq v w" if "(k, v) \<in> set kvs" for k v
  proof -
    from that PDict.prems have "map_of kvs k = Some v" "distinct_keys v"
      by (auto simp: list_all_iff)
    moreover from that have "v \<in> Basic_BNFs.snds (k, v)"
      by simp
    ultimately show ?thesis
      using PDict.IH [OF that] by simp
  qed
  then show ?case
    by (auto simp: list_all_iff)
qed simp_all

lemma update_fresh: "k \<notin> fst ` set al \<Longrightarrow> AList.update k v al = al @ [(k, v)]"
  by (induction al) auto

lemma fold_update_distinct:
  "distinct (map fst (ys @ xs)) \<Longrightarrow>
     fold (\<lambda>(k, v) d. AList.update k v d) xs ys = ys @ xs"
proof (induction xs arbitrary: ys)
  case Nil
  show ?case by simp
next
  case (Cons x xs)
  obtain k v where x: "x = (k, v)"
    by (cases x)
  from Cons.prems x have fresh: "k \<notin> fst ` set ys"
    by auto
  from Cons.prems x have "distinct (map fst ((ys @ [(k, v)]) @ xs))"
    by auto
  from Cons.IH [OF this] x fresh show ?case
    by (simp add: update_fresh)
qed

lemma distinct_keys_sorted:
  assumes "distinct (map fst xs)"
  shows "distinct (map fst (sort_key fst xs))"
proof -
  from distinct_card [OF assms] have "card (set (map fst xs)) = length xs"
    by simp
  then have "card (set (map fst (sort_key fst xs))) = length (map fst (sort_key fst xs))"
    by simp
  then show ?thesis
    by (rule card_distinct)
qed

lemma json_roundtrip: "distinct_keys v \<Longrightarrow> py_eq v (json_decode (json_dump v))"
proof (induction v)
  case (PList xs)
  then show ?case
    by (simp add: list_all2_conv_all_nth list_all_iff)
next
  case (PDict kvs)
  let ?X = "map (map_prod id json_dump) kvs"
  let ?S = "sort_key fst ?X"
  let ?Y = "map (map_prod id json_decode) ?S"
  from PDict.prems have dk: "distinct (map fst kvs)"
    by simp
  then have "distinct (map fst ?X)"
    by (simp add: comp_def)
  then have "distinct (map fst ?S)"
    by (rule distinct_keys_sorted)
  then have dY: "distinct (map fst ?Y)"
    by (simp add: comp_def)
  then have folded: "fold (\<lambda>(k, v) d. AList.update k v d) ?Y [] = ?Y"
    using fold_update_distinct [of "[]" ?Y] by simp
  have len: "length kvs = length ?Y"
    by simp
  have "case map_of ?Y k of None \<Rightarrow> False | Some w \<Rightarrow> py_eq v w" if kv: "(k, v) \<in> set kvs" for k v
  proof -
    from kv have "(k, json_dump v) \<in> set ?S"
      by (force simp: image_iff)
    then have "(k, json_decode (json_dump v)) \<in> set ?Y"
      by (force simp: image_iff)
    with dY have "map_of ?Y k = Some (json_decode (json_dump v))"
      by (rule_tac map_of_is_SomeI)
    moreover from kv PDict.prems have "distinct_keys v"
      by (auto simp: list_all_iff)
    moreover from kv have "v \<in> Basic_BNFs.snds (k, v)"
      by simp
    ultimately show ?thesis
      using PDict.IH [OF kv] by simp
  qed
  then have "list_all (\<lambda>(k, v). case map_of ?Y k of None \<Rightarrow> False | Some w \<Rightarrow> py_eq v w) kvs"
    by (auto simp: list_all_iff)
  with len folded show ?case
    by (simp del: length_map map_map)
qed simp_all

lemma list_all2_map_inj:
  assumes "\<And>x y. P (f x) (g y) = (x = y)"
  shows "list_all2 P (map f xs) (map g ys) = (xs = ys)"
proof (induction xs arbitrary: ys)
  case Nil
  show ?case by auto
next
  case (Cons x xs)
  show ?case
    by (cases ys) (simp_all add: assms Cons.IH)
qed

lemma segment_val_eq: "py_eq (segment_val g) (segment_val h) = (g = h)"
  by (cases g, cases h) (auto simp: segment_val_def)

lemma segment_stored_eq: "py_eq (segment_val g) (json_decode (json_dump (segment_val h))) = (g = h)"
  by (cases g, cases h) (auto simp: segment_val_def)

lemma snapshot_entry_eq:
  "py_eq (snapshot_entry f1 r1 ts1) (snapshot_entry f2 r2 ts2) = (f1 = f2 \<and> r1 = r2 \<and> ts1 = ts2)"
  by (simp add: snapshot_entry_def list_all2_map_inj [of py_eq segment_val segment_val, OF segment_val_eq])

lemma snapshot_entry_stored_eq:
  "py_eq (snapshot_entry f1 r1 ts1) (json_decode (json_dump (snapshot_entry f2 r2 ts2))) =
     (f1 = f2 \<and> r1 = r2 \<and> ts1 = ts2)"
proof -
  have "list_all2 py_eq (map segment_val ts1) (map (\<lambda>h. json_decode (json_dump (segment_val h))) ts2)
          = (ts1 = ts2)"
    by (rule list_all2_map_inj) (rule segment_stored_eq)
  then show ?thesis
    by (simp add: snapshot_entry_def comp_def)
qed

lemma snapshot_record_eq:
  "py_eq (snapshot_record m1 es1) (snapshot_record m2 es2) = (m1 = m2 \<and> es1 = es2)"
proof -
  have "list_all2 py_eq (map (\<lambda>(f, sr, ts). snapshot_entry f sr ts) es1)
          (map (\<lambda>(f, sr, ts). snapshot_entry f sr ts) es2) = (es1 = es2)"
    by (rule list_all2_map_inj) (auto simp: snapshot_entry_eq)
  then show ?thesis
    by (simp add: snapshot_record_def)
qed

lemma snapshot_record_stored_eq:
  "py_eq (snapshot_record m1 es1) (json_decode (json_dump (snapshot_record m2 es2))) =
     (m1 = m2 \<and> es1 = es2)"
proof -
  have "list_all2 py_eq (map (\<lambda>(f, sr, ts). snapshot_entry f sr ts) es1)
          (map (\<lambda>e. json_decode (json_dump ((\<lambda>(f, sr, ts). snapshot_entry f sr ts) e))) es2)
          = (es1 = es2)"
    by (rule list_all2_map_inj) (auto simp: snapshot_entry_stored_eq)
  then show ?thesis
    by (simp add: snapshot_record_def comp_def)
qed

text \<open>
  C4. The comparison of two Snapshot Records, and of a Snapshot Record with one read back
  from the snapshot file, reports equality exactly when the backend names and every file
  name, sampling rate and timestamp agree: identical records compare equal, and records that
  differ in any leaf, by however little, compare unequal.
\<close>

theorem snapshot_comparison_exact:
  "py_eq (snapshot_record m1 es1) (snapshot_record m2 es2) = (m1 = m2 \<and> es1 = es2) \<and>
   py_eq (snapshot_record m1 es1) (json_decode (json_dump (snapshot_record m2 es2))) =
     (m1 = m2 \<and> es1 = es2)"
  by (simp only: snapshot_record_eq snapshot_record_stored_eq)

theorem snapshot_comparison_exact_witness:
  "py_eq demo_record demo_record \<and>
   py_eq demo_record (json_decode (json_dump demo_record)) \<and>
   \<not> py_eq demo_record
       (json_decode (json_dump (snapshot_record ''jit''
          [(''test.wav'', 16000, [\<lparr>seg_start = 1/2, seg_end = 3/2 + 1/1000\<rparr>])])))"
  unfolding demo_record_def
  using snapshot_comparison_exact [of "''jit''" "[(''test.wav'', 16000, [\<lparr>seg_start = 1/2, seg_end = 3/2\<rparr>])]"
      "''jit''" "[(''test.wav'', 16000, [\<lparr>seg_start = 1/2, seg_end = 3/2\<rparr>])]"]
    snapshot_comparison_exact [of "''jit''" "[(''test.wav'', 16000, [\<lparr>seg_start = 1/2, seg_end = 3/2\<rparr>])]"
      "''jit''" "[(''test.wav'', 16000, [\<lparr>seg_start = 1/2, seg_end = 3/2 + 1/1000\<rparr>])]"]
  by simp

text \<open>The file names of the three samples.\<close>

lemma path_name_samples: "map path_name SAMPLES = [''test.wav'', ''test.opus'', ''test.mp3'']"
  by (simp add: SAMPLES_def path_name_def)

text \<open>What the tests hand to the check is a Snapshot Record.\<close>

lemma compute_snapshot_entries:
  "compute_snapshot E m samples sr results s = (Inr rs, s') \<Longrightarrow>
     \<exists>tss. length tss = length samples \<and>
           rs = results @ map (\<lambda>(sample, ts). snapshot_entry (path_name sample) sr ts) (zip samples tss)"
proof (induction samples arbitrary: results s)
  case Nil
  then show ?case by simp
next
  case (Cons sample samples)
  let ?kw = "[VisualizeProbs False, ReturnSeconds True, TimeResolution 3]"
  obtain r s1 where rd: "t_read E sample sr s = (r, s1)"
    by (cases "t_read E sample sr s")
  with Cons.prems obtain a where ra: "r = Inr a"
    by (cases r) auto
  obtain x s2 where d: "t_detect E a m ?kw s1 = (x, s2)"
    by (cases "t_detect E a m ?kw s1")
  with Cons.prems rd ra obtain ts where xt: "x = Inr ts"
    by (cases x) auto
  from Cons.prems rd ra d xt
  have "compute_snapshot E m samples sr (results @ [snapshot_entry (path_name sample) sr ts]) s2 = (Inr rs, s')"
    by simp
  from Cons.IH [OF this] obtain tss where
    "length tss = length samples"
    "rs = (results @ [snapshot_entry (path_name sample) sr ts]) @
          map (\<lambda>(sample, ts). snapshot_entry (path_name sample) sr ts) (zip samples tss)"
    by blast
  then have "length (ts # tss) = length (sample # samples) \<and>
      rs = results @ map (\<lambda>(sample, ts). snapshot_entry (path_name sample) sr ts)
                       (zip (sample # samples) (ts # tss))"
    by simp
  then show ?case by blast
qed

lemma computed_record:
  "compute_snapshot E m samples sr [] s = (Inr rs, s') \<Longrightarrow>
     \<exists>tss. PDict [(''model'', PStr name), (''snapshots'', PList rs)] =
           snapshot_record name (map (\<lambda>(sample, ts). (path_name sample, sr, ts)) (zip samples tss))"
proof -
  assume "compute_snapshot E m samples sr [] s = (Inr rs, s')"
  from compute_snapshot_entries [OF this] obtain tss where
    "rs = map (\<lambda>(sample, ts). snapshot_entry (path_name sample) sr ts) (zip samples tss)"
    by auto
  then have "PDict [(''model'', PStr name), (''snapshots'', PList rs)] =
           snapshot_record name (map (\<lambda>(sample, ts). (path_name sample, sr, ts)) (zip samples tss))"
    by (simp add: snapshot_record_def comp_def case_prod_unfold)
  then show ?thesis ..
qed

lemma distinct_keys_record: "distinct_keys (snapshot_record name entries)"
  by (auto simp: snapshot_record_def snapshot_entry_def segment_val_def list_all_iff)

lemma snapshot_dir_not_inside: "parent p = SNAPSHOT_DIR \<Longrightarrow> p \<noteq> SNAPSHOT_DIR"
  by (auto simp: parent_def SNAPSHOT_DIR_def module_dir_def)

lemma mkdir_result:
  assumes "mkdir_exist_ok fs d = Inr fs1"
  shows "fs1 d = Some Dir" and "q \<noteq> d \<Longrightarrow> fs1 q = fs q" and "fs d \<noteq> None \<Longrightarrow> fs1 = fs"
  using assms
  by (auto simp: mkdir_exist_ok_def split: option.splits node.splits)

lemma write_or_assert_present:
  assumes "mkdir_exist_ok (files s) SNAPSHOT_DIR = Inr fs1" and "files s p = Some (File c)"
  shows "fst (write_or_assert p data s) =
           (case json_load c of
              Inl e \<Rightarrow> Inl e
            | Inr expected \<Rightarrow> if py_eq data expected then Inr () else Inl AssertionError)"
    and "files (snd (write_or_assert p data s)) = fs1"
    and "t_calls (snd (write_or_assert p data s)) =
           t_calls s @ [Mkdir SNAPSHOT_DIR, PathExists p, OpenRead p]"
proof -
  from assms have "fs1 p = Some (File c)"
    by (cases "p = SNAPSHOT_DIR") (auto simp: mkdir_exist_ok_def split: option.splits node.splits)
  with assms(1) show "fst (write_or_assert p data s) =
           (case json_load c of
              Inl e \<Rightarrow> Inl e
            | Inr expected \<Rightarrow> if py_eq data expected then Inr () else Inl AssertionError)"
    and "files (snd (write_or_assert p data s)) = fs1"
    and "t_calls (snd (write_or_assert p data s)) =
           t_calls s @ [Mkdir SNAPSHOT_DIR, PathExists p, OpenRead p]"
    by (simp_all add: write_or_assert_def Let_def path_exists_def open_read_def split: sum.splits)
qed

lemma write_or_assert_absent:
  assumes "mkdir_exist_ok (files s) SNAPSHOT_DIR = Inr fs1" and "files s p = None"
    and "parent p = SNAPSHOT_DIR"
  shows "write_or_assert p data s =
           (Inl (Failed (''Snapshot created at '' @ path_str p @ ''. Verify and re-run.'')),
            s\<lparr>t_calls := t_calls s @ [Mkdir SNAPSHOT_DIR, PathExists p, OpenWrite p],
              files := fs1(p \<mapsto> File (JsonText (json_dump data)))\<rparr>)"
proof -
  from assms(3) have ne: "p \<noteq> SNAPSHOT_DIR"
    by (rule snapshot_dir_not_inside)
  with assms(1,2) mkdir_result(2) [OF assms(1), of p] have "fs1 p = None"
    by simp
  moreover from mkdir_result(1) [OF assms(1)] assms(3) have "fs1 (parent p) = Some Dir"
    by simp
  ultimately show ?thesis
    using assms(1)
    by (simp add: write_or_assert_def Let_def path_exists_def open_write_def)
qed

section \<open>The snapshot check\<close>

lemma write_or_assert_directory:
  assumes "mkdir_exist_ok (files s) SNAPSHOT_DIR = Inr fs1" and "files s p = Some Dir"
  shows "fst (write_or_assert p data s) = Inl IsADirectoryError"
proof -
  from assms have "fs1 p = Some Dir"
    by (cases "p = SNAPSHOT_DIR") (auto simp: mkdir_exist_ok_def split: option.splits node.splits)
  with assms(1) show ?thesis
    by (simp add: write_or_assert_def Let_def path_exists_def open_read_def)
qed

text \<open>
  C3. When the snapshot directory is there or can be made, and the snapshot path lies in it,
  the check passes exactly when the file is present, holds a JSON document, and the computed
  record equals the record read from it. When the file is absent the record is written and
  the check fails with \<open>pytest.fail\<close>; when it is present and the records differ the check
  fails with \<open>AssertionError\<close>; a file that is not JSON fails the check too.
\<close>

theorem write_or_assert_outcome:
  assumes "mkdir_exist_ok (files s) SNAPSHOT_DIR = Inr fs1" and "parent p = SNAPSHOT_DIR"
  shows "(fst (write_or_assert p data s) = Inr ()) =
           (\<exists>t. files s p = Some (File (JsonText t)) \<and> py_eq data (json_decode t)) \<and>
         (files s p = None \<longrightarrow>
            fst (write_or_assert p data s) =
              Inl (Failed (''Snapshot created at '' @ path_str p @ ''. Verify and re-run.'')) \<and>
            files (snd (write_or_assert p data s)) p = Some (File (JsonText (json_dump data)))) \<and>
         (\<forall>t. files s p = Some (File (JsonText t)) \<longrightarrow>
            fst (write_or_assert p data s) =
              (if py_eq data (json_decode t) then Inr () else Inl AssertionError)) \<and>
         (files s p = Some (File NotJson) \<longrightarrow>
            fst (write_or_assert p data s) = Inl JSONDecodeError)"
proof (cases "files s p")
  case None
  from write_or_assert_absent [OF assms(1) None assms(2), of data] None show ?thesis
    by simp
next
  case (Some n)
  show ?thesis
  proof (cases n)
    case Dir
    with Some write_or_assert_directory [OF assms(1), of p data] show ?thesis
      by simp
  next
    case (File c)
    with Some write_or_assert_present(1) [OF assms(1), of p c data] show ?thesis
      by (cases c) simp_all
  qed
qed

lemma demo_mkdir: "mkdir_exist_ok demo_fs SNAPSHOT_DIR = Inr (demo_fs(SNAPSHOT_DIR \<mapsto> Dir))"
  by (simp add: mkdir_exist_ok_def demo_fs_def SNAPSHOT_DIR_def module_dir_def parent_def)

lemma stored_mkdir: "mkdir_exist_ok (files (stored_state v)) SNAPSHOT_DIR = Inr (files (stored_state v))"
  by (simp add: mkdir_exist_ok_def stored_state_def)

lemma demo_inside: "parent (SNAPSHOT_DIR @ [''jit.json'']) = SNAPSHOT_DIR"
  by (simp add: parent_def)

lemma demo_absent: "files demo_state (SNAPSHOT_DIR @ [''jit.json'']) = None"
  by (simp add: demo_state_def demo_fs_def SNAPSHOT_DIR_def module_dir_def)

lemma stored_present:
  "files (stored_state v) (SNAPSHOT_DIR @ [''jit.json'']) = Some (File (JsonText (json_dump v)))"
  by (simp add: stored_state_def)

theorem write_or_assert_outcome_witness:
  "mkdir_exist_ok (files demo_state) SNAPSHOT_DIR = Inr (demo_fs(SNAPSHOT_DIR \<mapsto> Dir)) \<and>
   parent (SNAPSHOT_DIR @ [''jit.json'']) = SNAPSHOT_DIR \<and>
   fst (write_or_assert (SNAPSHOT_DIR @ [''jit.json'']) demo_record demo_state) =
     Inl (Failed ''Snapshot created at tests/snapshots/jit.json. Verify and re-run.'') \<and>
   fst (write_or_assert (SNAPSHOT_DIR @ [''jit.json'']) demo_record (stored_state demo_record)) = Inr () \<and>
   fst (write_or_assert (SNAPSHOT_DIR @ [''jit.json'']) demo_record (stored_state (PList []))) =
     Inl AssertionError"
proof -
  have m: "mkdir_exist_ok (files demo_state) SNAPSHOT_DIR = Inr (demo_fs(SNAPSHOT_DIR \<mapsto> Dir))"
    by (simp add: demo_state_def demo_mkdir)
  have eq: "py_eq demo_record (json_decode (json_dump demo_record))"
    by (simp add: demo_record_def snapshot_record_stored_eq)
  have ne: "\<not> py_eq demo_record (json_decode (json_dump (PList [])))"
    by (simp add: demo_record_def snapshot_record_def)
  have msg: "path_str (SNAPSHOT_DIR @ [''jit.json'']) = ''tests/snapshots/jit.json''"
    by (simp add: path_str_def SNAPSHOT_DIR_def module_dir_def)
  from write_or_assert_outcome [OF m demo_inside, of demo_record]
    write_or_assert_outcome [OF stored_mkdir [of demo_record] demo_inside, of demo_record]
    write_or_assert_outcome [OF stored_mkdir [of "PList []"] demo_inside, of demo_record]
    m demo_inside demo_absent stored_present eq ne msg
  show ?thesis
    by simp
qed

text \<open>
  C5. A record whose dicts hold each key once, as every Python dict does, written with
  \<open>json.dump\<close> and read back with \<open>json.load\<close>, equals the original. So a first check against
  a missing snapshot file writes the record and fails, and a second check of the same record
  against the file then there passes.
\<close>

theorem snapshot_roundtrip_two_runs:
  assumes "distinct_keys data" and "mkdir_exist_ok (files s) SNAPSHOT_DIR = Inr fs1"
    and "parent p = SNAPSHOT_DIR" and "files s p = None"
  shows "json_load (JsonText (json_dump data)) = Inr (json_decode (json_dump data)) \<and>
         py_eq data (json_decode (json_dump data)) \<and>
         fst (write_or_assert p data s) =
           Inl (Failed (''Snapshot created at '' @ path_str p @ ''. Verify and re-run.'')) \<and>
         files (snd (write_or_assert p data s)) p = Some (File (JsonText (json_dump data))) \<and>
         fst (write_or_assert p data (snd (write_or_assert p data s))) = Inr ()"
proof -
  let ?s1 = "snd (write_or_assert p data s)"
  note first = write_or_assert_absent [OF assms(2,4,3), of data]
  from first have f1: "files ?s1 = fs1(p \<mapsto> File (JsonText (json_dump data)))"
    by simp
  from assms(3) have ne: "p \<noteq> SNAPSHOT_DIR"
    by (rule snapshot_dir_not_inside)
  with mkdir_result(1) [OF assms(2)] f1 have "files ?s1 SNAPSHOT_DIR = Some Dir"
    by simp
  then have m2: "mkdir_exist_ok (files ?s1) SNAPSHOT_DIR = Inr (files ?s1)"
    by (simp add: mkdir_exist_ok_def)
  from f1 have p2: "files ?s1 p = Some (File (JsonText (json_dump data)))"
    by simp
  from json_roundtrip [OF assms(1)] have rt: "py_eq data (json_decode (json_dump data))" .
  from write_or_assert_present(1) [OF m2 p2, of data] rt
  have "fst (write_or_assert p data ?s1) = Inr ()"
    by simp
  with first rt p2 show ?thesis
    by simp
qed

theorem snapshot_roundtrip_two_runs_witness:
  "distinct_keys demo_record \<and>
   mkdir_exist_ok (files demo_state) SNAPSHOT_DIR = Inr (demo_fs(SNAPSHOT_DIR \<mapsto> Dir)) \<and>
   parent (SNAPSHOT_DIR @ [''jit.json'']) = SNAPSHOT_DIR \<and>
   files demo_state (SNAPSHOT_DIR @ [''jit.json'']) = None \<and>
   py_eq demo_record (json_decode (json_dump demo_record)) \<and>
   fst (write_or_assert (SNAPSHOT_DIR @ [''jit.json'']) demo_record demo_state) =
     Inl (Failed ''Snapshot created at tests/snapshots/jit.json. Verify and re-run.'') \<and>
   fst (write_or_assert (SNAPSHOT_DIR @ [''jit.json'']) demo_record
          (snd (write_or_assert (SNAPSHOT_DIR @ [''jit.json'']) demo_record demo_state))) = Inr ()"
proof -
  have d: "distinct_keys demo_record"
    by (simp add: demo_record_def distinct_keys_record)
  have m: "mkdir_exist_ok (files demo_state) SNAPSHOT_DIR = Inr (demo_fs(SNAPSHOT_DIR \<mapsto> Dir))"
    by (simp add: demo_state_def demo_mkdir)
  have msg: "path_str (SNAPSHOT_DIR @ [''jit.json'']) = ''tests/snapshots/jit.json''"
    by (simp add: path_str_def SNAPSHOT_DIR_def module_dir_def)
  from snapshot_roundtrip_two_runs [OF d m demo_inside demo_absent] d m demo_inside demo_absent msg
  show ?thesis
    by simp
qed

text \<open>
  C10. Every check starts by making the snapshot directory, which changes nothing and raises
  nothing when the directory is there. A check that finds the snapshot file opens nothing
  for writing and leaves the file as it was (and the whole file system, when the directory
  was there); the file is opened for writing only when it was absent.
\<close>

theorem snapshot_file_written_only_when_absent:
  "\<exists>rest. t_calls (snd (write_or_assert p data s)) = t_calls s @ Mkdir SNAPSHOT_DIR # rest \<and>
      (files s p \<noteq> None \<longrightarrow>
         OpenWrite p \<notin> set rest \<and> files (snd (write_or_assert p data s)) p = files s p) \<and>
      (OpenWrite p \<in> set rest \<longrightarrow> files s p = None) \<and>
      (files s SNAPSHOT_DIR = Some Dir \<longrightarrow>
         mkdir_exist_ok (files s) SNAPSHOT_DIR = Inr (files s) \<and>
         (files s p \<noteq> None \<longrightarrow> files (snd (write_or_assert p data s)) = files s))"
proof (cases "mkdir_exist_ok (files s) SNAPSHOT_DIR")
  case (Inl e)
  then have "t_calls (snd (write_or_assert p data s)) = t_calls s @ Mkdir SNAPSHOT_DIR # []"
    and "files (snd (write_or_assert p data s)) = files s"
    by (simp_all add: write_or_assert_def Let_def)
  moreover from Inl have "files s SNAPSHOT_DIR \<noteq> Some Dir"
    by (auto simp: mkdir_exist_ok_def)
  ultimately show ?thesis
    by auto
next
  case (Inr fs1)
  note mk = this
  have idem: "files s SNAPSHOT_DIR = Some Dir \<longrightarrow> fs1 = files s"
    using mkdir_result(3) [OF mk] by simp
  show ?thesis
  proof (cases "files s p")
    case None
    have "\<exists>xs. t_calls (snd (write_or_assert p data s)) = t_calls s @ Mkdir SNAPSHOT_DIR # xs"
      using mk by (simp add: write_or_assert_def Let_def split: sum.splits)
    with None show ?thesis
      using mk idem by auto
  next
    case (Some n)
    have same: "fs1 p = files s p"
      using mk Some
      by (cases "p = SNAPSHOT_DIR") (auto simp: mkdir_exist_ok_def split: option.splits node.splits)
    with Some have ex: "path_exists fs1 p"
      by (simp add: path_exists_def)
    from mk ex have c: "t_calls (snd (write_or_assert p data s)) =
        t_calls s @ Mkdir SNAPSHOT_DIR # [PathExists p, OpenRead p]"
      and f: "files (snd (write_or_assert p data s)) = fs1"
      by (simp_all add: write_or_assert_def Let_def split: sum.splits)
    from c f same Some mk idem show ?thesis
      by auto
  qed
qed

theorem snapshot_file_written_only_when_absent_witness:
  "files (stored_state demo_record) SNAPSHOT_DIR = Some Dir \<and>
   files (stored_state demo_record) (SNAPSHOT_DIR @ [''jit.json'']) \<noteq> None \<and>
   mkdir_exist_ok (files (stored_state demo_record)) SNAPSHOT_DIR = Inr (files (stored_state demo_record)) \<and>
   files (snd (write_or_assert (SNAPSHOT_DIR @ [''jit.json'']) demo_record (stored_state demo_record))) =
     files (stored_state demo_record) \<and>
   t_calls (snd (write_or_assert (SNAPSHOT_DIR @ [''jit.json'']) demo_record (stored_state demo_record))) =
     [Mkdir SNAPSHOT_DIR, PathExists (SNAPSHOT_DIR @ [''jit.json'']), OpenRead (SNAPSHOT_DIR @ [''jit.json''])]"
proof -
  have d: "files (stored_state demo_record) SNAPSHOT_DIR = Some Dir"
    by (simp add: stored_state_def SNAPSHOT_DIR_def module_dir_def)
  have c: "t_calls (snd (write_or_assert (SNAPSHOT_DIR @ [''jit.json'']) demo_record (stored_state demo_record))) =
     t_calls (stored_state demo_record) @
     [Mkdir SNAPSHOT_DIR, PathExists (SNAPSHOT_DIR @ [''jit.json'']), OpenRead (SNAPSHOT_DIR @ [''jit.json''])]"
    by (rule write_or_assert_present(3) [OF stored_mkdir stored_present])
  have e: "t_calls (stored_state demo_record) = []"
    by (simp add: stored_state_def)
  from snapshot_file_written_only_when_absent
         [of "SNAPSHOT_DIR @ [''jit.json'']" demo_record "stored_state demo_record"]
    d stored_present [of demo_record] c e
  show ?thesis
    by auto
qed

end
